theory Spec2Isabelle
  imports Main "HOL-Library.Word"
begin

section \<open>The node of the Riak client: data model\<close>

text \<open>
  The embedding follows \<^verbatim>\<open>node.go\<close>. Every method of \<^verbatim>\<open>Node\<close> becomes a function that takes
  the node and the state of its surroundings and returns an outcome: the method returns, it
  panics, or the calling goroutine waits for ever (on a mutex it already holds, or on a channel
  nobody reads). The model runs one goroutine at a time; the two mutexes are part of the node's
  state, so that taking a held mutex is visible as the outcome \<open>Blocked\<close>.
\<close>

type_synonym uint16 = "16 word"

text \<open>Instants and durations, in nanoseconds.\<close>

type_synonym time = int

datatype state =
  NODE_ERROR | NODE_CREATED | NODE_RUNNING | NODE_HEALTH_CHECKING | NODE_SHUTTING_DOWN
  | NODE_SHUTDOWN

text \<open>\<^verbatim>\<open>type state byte\<close>, the constants numbered by \<^verbatim>\<open>iota\<close>.\<close>

fun state_byte :: "state \<Rightarrow> 8 word" where
  "state_byte NODE_ERROR = 0"
| "state_byte NODE_CREATED = 1"
| "state_byte NODE_RUNNING = 2"
| "state_byte NODE_HEALTH_CHECKING = 3"
| "state_byte NODE_SHUTTING_DOWN = 4"
| "state_byte NODE_SHUTDOWN = 5"

text \<open>
  Errors: the illegal-state error built by \<^verbatim>\<open>stateCheck\<close> (required states, current state), and
  the errors of the collaborators (connection, resolver), which are opaque and told apart by
  a number.
\<close>

datatype error = IllegalState "state list" state | CollabError nat

text \<open>
  Modelled from the spec: the types \<^verbatim>\<open>Command\<close>, \<^verbatim>\<open>CommandBuilder\<close> and \<^verbatim>\<open>PingCommand\<close> are
  declared outside \<^verbatim>\<open>node.go\<close>. A command is an opaque unit of work; the number is the identity of
  the instance (two commands are the same instance iff they are equal). \<open>BuiltCommand\<close> is what
  a builder's \<^verbatim>\<open>Build()\<close> produces, \<open>PingCommand\<close> is \<^verbatim>\<open>&PingCommand{}\<close>, \<open>OtherCommand\<close> any command
  of a caller.
\<close>

datatype command = PingCommand nat | BuiltCommand nat | OtherCommand nat

datatype CommandBuilder = CommandBuilder nat

text \<open>
  Modelled from the spec: the type \<^verbatim>\<open>connection\<close> is declared outside \<^verbatim>\<open>node.go\<close>; the node reads
  and writes its fields \<^verbatim>\<open>inFlight\<close> and \<^verbatim>\<open>lastUsed\<close>. \<open>cid\<close> stands for the identity of the
  object behind the pointer. A \<^verbatim>\<open>*connection\<close> is a \<open>connection option\<close>, \<open>None\<close> being \<^verbatim>\<open>nil\<close>.
\<close>

record connection =
  cid :: nat
  inFlight :: bool
  lastUsed :: time

datatype ticker = Ticking | Stopped

record NodeOptions =
  RemoteAddress :: string
  MinConnections :: uint16
  MaxConnections :: uint16
  IdleTimeout :: time
  ConnectTimeout :: time
  RequestTimeout :: time
  HealthCheckBuilder :: "CommandBuilder option"

text \<open>
  The struct \<^verbatim>\<open>Node\<close>. \<open>connMtx\<close> is \<open>True\<close> while the \<^verbatim>\<open>sync.Mutex\<close> is held; the
  \<^verbatim>\<open>sync.RWMutex\<close> \<open>stateMtx\<close> is the number of read locks held and whether the write lock is
  held. The channel \<^verbatim>\<open>stop\<close> has no content of its own (it is unbuffered); who listens on it is
  in \<open>spawned\<close> below.
\<close>

record Node =
  addr :: string
  minConnections :: uint16
  maxConnections :: uint16
  idleTimeout :: time
  connectTimeout :: time
  requestTimeout :: time
  healthCheckBuilder :: "CommandBuilder option"
  expireTicker :: "ticker option"
  connMtx :: bool
  available :: "connection option list"
  currentNumConnections :: uint16
  stateMtx_readers :: nat
  stateMtx_writer :: bool
  state :: state

text \<open>
  What the node does to its surroundings: the connections it has called \<^verbatim>\<open>close()\<close> on, in
  order; the health-check command handed to \<^verbatim>\<open>newConnection\<close> at each creation attempt, in
  order; the number of command instances allocated so far by \<^verbatim>\<open>getHealthCheckCommand\<close>; and the
  goroutines started by a \<^verbatim>\<open>go\<close> statement (an idle-expiration goroutine leaves the list when it
  receives from \<^verbatim>\<open>stop\<close>).
\<close>

datatype task = ExpireIdle | HealthCheck

record world =
  closed :: "connection list"
  probes :: "command option list"
  allocs :: nat
  spawned :: "task list"

datatype 'a outcome =
  Return 'a Node world
  | Panic string Node world
  | Blocked Node world

text \<open>
  The result of one creation attempt, decided by the network: \<^verbatim>\<open>newConnection\<close> fails (with
  whatever pointer it returns), \<^verbatim>\<open>newConnection\<close> succeeds and \<^verbatim>\<open>connect()\<close> fails, or both
  succeed.
\<close>

datatype dial =
  NewErr "connection option" error
  | ConnErr connection error
  | ConnOk connection

section \<open>Construction\<close>

text \<open>
  \<^verbatim>\<open>NewNode\<close>. The default constants are declared outside \<^verbatim>\<open>node.go\<close> and are taken as the record
  \<open>dflt\<close> (\<^verbatim>\<open>defaultNodeOptions\<close>); \<^verbatim>\<open>net.ResolveTCPAddr\<close> is the parameter \<open>resolve\<close>.
\<close>

definition fill_defaults :: "NodeOptions \<Rightarrow> NodeOptions option \<Rightarrow> NodeOptions" where
  "fill_defaults dflt options =
     (let o0 = (case options of None \<Rightarrow> dflt | Some o' \<Rightarrow> o');
          o1 = (if RemoteAddress o0 = [] then o0\<lparr>RemoteAddress := RemoteAddress dflt\<rparr> else o0);
          o2 = (if MinConnections o1 = 0 then o1\<lparr>MinConnections := MinConnections dflt\<rparr> else o1);
          o3 = (if MaxConnections o2 = 0 then o2\<lparr>MaxConnections := MaxConnections dflt\<rparr> else o2);
          o4 = (if IdleTimeout o3 = 0 then o3\<lparr>IdleTimeout := IdleTimeout dflt\<rparr> else o3);
          o5 = (if ConnectTimeout o4 = 0 then o4\<lparr>ConnectTimeout := ConnectTimeout dflt\<rparr> else o4)
      in if RequestTimeout o5 = 0 then o5\<lparr>RequestTimeout := RequestTimeout dflt\<rparr> else o5)"

definition NewNode ::
  "NodeOptions \<Rightarrow> (string \<Rightarrow> error + string) \<Rightarrow> NodeOptions option \<Rightarrow> error + Node" where
  "NewNode dflt resolve options =
     (let opts = fill_defaults dflt options
      in case resolve (RemoteAddress opts) of
           Inr resolvedAddress \<Rightarrow>
             Inr \<lparr> addr = resolvedAddress,
                   minConnections = MinConnections opts,
                   maxConnections = MaxConnections opts,
                   idleTimeout = IdleTimeout opts,
                   connectTimeout = ConnectTimeout opts,
                   requestTimeout = RequestTimeout opts,
                   healthCheckBuilder = HealthCheckBuilder opts,
                   expireTicker = None,
                   connMtx = False,
                   available = [],
                   currentNumConnections = 0,
                   stateMtx_readers = 0,
                   stateMtx_writer = False,
                   state = NODE_CREATED \<rparr>
         | Inl err \<Rightarrow> Inl err)"

definition world0 :: world where
  "world0 = \<lparr> closed = [], probes = [], allocs = 0, spawned = [] \<rparr>"

section \<open>Lifecycle state\<close>

text \<open>
  \<^verbatim>\<open>setState\<close> takes the write lock, which waits while any lock on \<open>stateMtx\<close> is held;
  \<^verbatim>\<open>stateCheck\<close> takes a read lock, which waits while the write lock is held. Both release
  what they took before they return.
\<close>

definition setState :: "state \<Rightarrow> Node \<Rightarrow> world \<Rightarrow> unit outcome" where
  "setState s n w =
     (if stateMtx_writer n \<or> 0 < stateMtx_readers n then Blocked n w
      else Return () (n\<lparr>state := s\<rparr>) w)"

definition stateCheck :: "state list \<Rightarrow> Node \<Rightarrow> world \<Rightarrow> error option outcome" where
  "stateCheck allowed n w =
     (if stateMtx_writer n then Blocked n w
      else Return (if state n \<in> set allowed then None
                   else Some (IllegalState allowed (state n))) n w)"

section \<open>The pool\<close>

definition getAvailableConnection :: "Node \<Rightarrow> world \<Rightarrow> connection option outcome" where
  "getAvailableConnection n w =
     (if connMtx n then Blocked n w
      else case available n of
             [] \<Rightarrow> Return None n w
           | c # rest \<Rightarrow> Return c (n\<lparr>available := rest\<rparr>) w)"

text \<open>
  \<^verbatim>\<open>returnConnectionToPool\<close>. Every caller passes a pointer it has checked against \<^verbatim>\<open>nil\<close>, so
  the argument is a connection. With \<open>shouldLock\<close> the mutex is taken and released again; the
  state is read without \<open>stateMtx\<close>. The error of \<^verbatim>\<open>close()\<close> is discarded.
\<close>

definition returnConnectionToPool :: "connection \<Rightarrow> bool \<Rightarrow> Node \<Rightarrow> world \<Rightarrow> unit outcome" where
  "returnConnectionToPool c shouldLock n w =
     (if shouldLock \<and> connMtx n then Blocked n w
      else if state_byte (state n) < state_byte NODE_SHUTTING_DOWN
        then Return () (n\<lparr>available := available n @ [Some (c\<lparr>inFlight := False\<rparr>)]\<rparr>) w
        else Return () (n\<lparr>currentNumConnections := currentNumConnections n - 1\<rparr>)
                       (w\<lparr>closed := closed w @ [c]\<rparr>))"

text \<open>
  \<^verbatim>\<open>createNewConnection\<close>: \<open>d\<close> is what the network does at this attempt. The count is
  incremented under \<open>connMtx\<close>, taken only after a successful connect.
\<close>

definition createNewConnection ::
  "command option \<Rightarrow> dial \<Rightarrow> Node \<Rightarrow> world \<Rightarrow> (connection option \<times> error option) outcome" where
  "createNewConnection healthCheck d n w =
     (let w1 = w\<lparr>probes := probes w @ [healthCheck]\<rparr>
      in case d of
           NewErr conn err \<Rightarrow> Return (conn, Some err) n w1
         | ConnErr conn err \<Rightarrow> Return (Some conn, Some err) n w1
         | ConnOk conn \<Rightarrow>
             if connMtx n then Blocked n w1
             else Return (Some conn, None)
                    (n\<lparr>currentNumConnections := currentNumConnections n + 1\<rparr>) w1)"

section \<open>Start\<close>

text \<open>
  The loop of \<^verbatim>\<open>Start\<close>; \<open>dials i\<close> is what the network does at attempt \<open>i\<close> (from 0). The
  counter is a \<^verbatim>\<open>uint16\<close> that stays below \<open>minConnections\<close>, so it never wraps and is kept as a
  natural number. The \<^verbatim>\<open>conn, err :=\<close> of the \<^verbatim>\<open>if\<close> statement declares two new variables, local
  to that statement: the loop leaves \<^verbatim>\<open>Start\<close>'s result \<^verbatim>\<open>err\<close> as it was, and a failed attempt
  only ends the loop (\<^verbatim>\<open>break\<close>).
\<close>

fun Start_loop :: "(nat \<Rightarrow> dial) \<Rightarrow> nat \<Rightarrow> nat \<Rightarrow> Node \<Rightarrow> world \<Rightarrow> unit outcome" where
  "Start_loop dials 0 i n w = Return () n w"
| "Start_loop dials (Suc k) i n w =
     (case createNewConnection None (dials i) n w of
        Return (conn, err) n1 w1 \<Rightarrow>
          (if err = None then
             (case conn of
                None \<Rightarrow> Panic ''could not create connection in Start'' n1 w1
              | Some c \<Rightarrow>
                  (case returnConnectionToPool c False n1 w1 of
                     Return u n2 w2 \<Rightarrow> Start_loop dials k (i + 1) n2 w2
                   | Panic m n2 w2 \<Rightarrow> Panic m n2 w2
                   | Blocked n2 w2 \<Rightarrow> Blocked n2 w2))
           else Return () n1 w1)
      | Panic m n1 w1 \<Rightarrow> Panic m n1 w1
      | Blocked n1 w1 \<Rightarrow> Blocked n1 w1)"

text \<open>
  \<^verbatim>\<open>Start\<close>. The first argument of \<open>Start_loop\<close> is the number of iterations left,
  \<open>minConnections - i\<close> (nothing in the loop writes \<open>minConnections\<close>). \<open>connMtx\<close> is held from
  before the loop until \<^verbatim>\<open>Start\<close> returns (\<^verbatim>\<open>defer\<close>). After the loop the result \<^verbatim>\<open>err\<close> is
  still the \<^verbatim>\<open>nil\<close> of the state check, so the test \<^verbatim>\<open>err != nil\<close> fails and the node is started.
\<close>

definition Start :: "(nat \<Rightarrow> dial) \<Rightarrow> Node \<Rightarrow> world \<Rightarrow> error option outcome" where
  "Start dials n w =
     (case stateCheck [NODE_CREATED] n w of
        Return (Some err) n0 w0 \<Rightarrow> Return (Some err) n0 w0
      | Return None n0 w0 \<Rightarrow>
          (if connMtx n0 then Blocked n0 w0
           else case Start_loop dials (unat (minConnections n0)) 0 (n0\<lparr>connMtx := True\<rparr>) w0 of
                  Return u n1 w1 \<Rightarrow>
                    (case setState NODE_RUNNING (n1\<lparr>expireTicker := Some Ticking\<rparr>)
                            (w1\<lparr>spawned := spawned w1 @ [ExpireIdle]\<rparr>) of
                       Return u' n2 w2 \<Rightarrow> Return None (n2\<lparr>connMtx := False\<rparr>) w2
                     | Panic m n2 w2 \<Rightarrow> Panic m n2 w2
                     | Blocked n2 w2 \<Rightarrow> Blocked n2 w2)
                | Panic m n1 w1 \<Rightarrow> Panic m n1 w1
                | Blocked n1 w1 \<Rightarrow> Blocked n1 w1)
      | Panic m n0 w0 \<Rightarrow> Panic m n0 w0
      | Blocked n0 w0 \<Rightarrow> Blocked n0 w0)"

section \<open>Stop and the drain\<close>

text \<open>
  The loop of \<^verbatim>\<open>shutdown\<close> over the entries of \<open>available\<close> as they were when the loop began
  (\<^verbatim>\<open>range\<close>); \<open>i\<close> is the index, \<open>err\<close> the variable that every \<^verbatim>\<open>close()\<close> overwrites.
  \<open>close_err c\<close> is what \<^verbatim>\<open>close()\<close> returns on \<open>c\<close>. On a \<^verbatim>\<open>nil\<close> entry \<^verbatim>\<open>close()\<close>
  dereferences \<^verbatim>\<open>nil\<close>.
\<close>

fun shutdown_loop ::
  "(connection \<Rightarrow> error option) \<Rightarrow> connection option list \<Rightarrow> nat \<Rightarrow> error option \<Rightarrow>
   Node \<Rightarrow> world \<Rightarrow> error option outcome" where
  "shutdown_loop close_err [] i err n w = Return err n w"
| "shutdown_loop close_err (None # rest) i err n w =
     Panic ''nil pointer dereference''
       (n\<lparr>available := (available n)[i := None],
          currentNumConnections := currentNumConnections n - 1\<rparr>) w"
| "shutdown_loop close_err (Some conn # rest) i err n w =
     shutdown_loop close_err rest (i + 1) (close_err conn)
       (n\<lparr>available := (available n)[i := None],
          currentNumConnections := currentNumConnections n - 1\<rparr>)
       (w\<lparr>closed := closed w @ [conn]\<rparr>)"

definition shutdown ::
  "(connection \<Rightarrow> error option) \<Rightarrow> Node \<Rightarrow> world \<Rightarrow> error option outcome" where
  "shutdown close_err n w =
     (if connMtx n then Blocked n w
      else case shutdown_loop close_err (available n) 0 None (n\<lparr>connMtx := True\<rparr>) w of
             Return (Some err) n1 w1 \<Rightarrow>
               (case setState NODE_ERROR n1 w1 of
                  Return u n2 w2 \<Rightarrow> Return (Some err) (n2\<lparr>connMtx := False\<rparr>) w2
                | Panic m n2 w2 \<Rightarrow> Panic m n2 w2
                | Blocked n2 w2 \<Rightarrow> Blocked n2 w2)
           | Return None n1 w1 \<Rightarrow>
               (if currentNumConnections n1 = 0 then
                  (case setState NODE_SHUTDOWN (n1\<lparr>available := []\<rparr>) w1 of
                     Return u n2 w2 \<Rightarrow> Return None (n2\<lparr>connMtx := False\<rparr>) w2
                   | Panic m n2 w2 \<Rightarrow> Panic m n2 w2
                   | Blocked n2 w2 \<Rightarrow> Blocked n2 w2)
                else Panic ''Connections still in use.'' n1 w1)
           | Panic m n1 w1 \<Rightarrow> Panic m n1 w1
           | Blocked n1 w1 \<Rightarrow> Blocked n1 w1)"

text \<open>
  \<^verbatim>\<open>Stop\<close>. The send on the unbuffered channel \<^verbatim>\<open>stop\<close> completes when an idle-expiration
  goroutine receives it (and quits); with no such goroutine the sender waits for ever.
  \<^verbatim>\<open>expireTicker.Stop()\<close> dereferences the ticker. The call \<^verbatim>\<open>n.shutdown()\<close> is a statement: what
  it returns is dropped, and \<^verbatim>\<open>Stop\<close> returns its own \<^verbatim>\<open>err\<close>, the \<^verbatim>\<open>nil\<close> of the state check.
\<close>

definition Stop :: "(connection \<Rightarrow> error option) \<Rightarrow> Node \<Rightarrow> world \<Rightarrow> error option outcome" where
  "Stop close_err n w =
     (case stateCheck [NODE_CREATED, NODE_HEALTH_CHECKING] n w of
        Return (Some err) n0 w0 \<Rightarrow> Return (Some err) n0 w0
      | Return None n0 w0 \<Rightarrow>
          (if ExpireIdle \<notin> set (spawned w0) then Blocked n0 w0
           else let w1 = w0\<lparr>spawned := remove1 ExpireIdle (spawned w0)\<rparr>
                in case expireTicker n0 of
                     None \<Rightarrow> Panic ''nil pointer dereference'' n0 w1
                   | Some t \<Rightarrow>
                       (case setState NODE_SHUTTING_DOWN (n0\<lparr>expireTicker := Some Stopped\<rparr>) w1 of
                          Return u n2 w2 \<Rightarrow>
                            (case shutdown close_err n2 w2 of
                               Return dropped n3 w3 \<Rightarrow> Return None n3 w3
                             | Panic m n3 w3 \<Rightarrow> Panic m n3 w3
                             | Blocked n3 w3 \<Rightarrow> Blocked n3 w3)
                        | Panic m n2 w2 \<Rightarrow> Panic m n2 w2
                        | Blocked n2 w2 \<Rightarrow> Blocked n2 w2))
      | Panic m n0 w0 \<Rightarrow> Panic m n0 w0
      | Blocked n0 w0 \<Rightarrow> Blocked n0 w0)"

section \<open>Dispatch\<close>

text \<open>
  The end of \<^verbatim>\<open>Execute\<close>, with a connection in hand: \<open>exec conn cmd\<close> is what \<^verbatim>\<open>conn.execute(cmd)\<close>
  does, the connection as it leaves it and its error. The connection goes back to the pool in
  both branches. \<open>unlock_deferred\<close> says that \<^verbatim>\<open>defer n.connMtx.Unlock()\<close> has been registered (the
  path that created a connection): it runs when \<^verbatim>\<open>Execute\<close> returns, on a mutex that line 205 and
  \<^verbatim>\<open>returnConnectionToPool\<close> have already released, which is a fatal error of the runtime. The
  read lock on \<open>stateMtx\<close> is released on return.
\<close>

definition Execute_run ::
  "(connection \<Rightarrow> command \<Rightarrow> connection \<times> error option) \<Rightarrow> command \<Rightarrow> connection \<Rightarrow> bool \<Rightarrow>
   Node \<Rightarrow> world \<Rightarrow> (bool \<times> error option) outcome" where
  "Execute_run exec cmd conn unlock_deferred n w =
     (case exec conn cmd of (conn', err) \<Rightarrow>
        (case returnConnectionToPool conn' True n w of
           Return u n1 w1 \<Rightarrow>
             (if unlock_deferred then Panic ''sync: unlock of unlocked mutex'' n1 w1
              else Return (err = None, err)
                     (n1\<lparr>stateMtx_readers := stateMtx_readers n1 - 1\<rparr>) w1)
         | Panic m n1 w1 \<Rightarrow> Panic m n1 w1
         | Blocked n1 w1 \<Rightarrow> Blocked n1 w1))"

text \<open>
  \<^verbatim>\<open>Execute\<close>; \<open>d\<close> is what the network does if a connection is created. The read lock on
  \<open>stateMtx\<close> is held from the test of the state to the return. When the queue gives no
  connection, \<open>connMtx\<close> is taken and held across \<^verbatim>\<open>createNewConnection\<close>.
\<close>

definition Execute ::
  "(connection \<Rightarrow> command \<Rightarrow> connection \<times> error option) \<Rightarrow> dial \<Rightarrow> command \<Rightarrow>
   Node \<Rightarrow> world \<Rightarrow> (bool \<times> error option) outcome" where
  "Execute exec d cmd n w =
     (case stateCheck [NODE_RUNNING, NODE_HEALTH_CHECKING] n w of
        Return (Some err) n0 w0 \<Rightarrow> Return (False, Some err) n0 w0
      | Return None n0 w0 \<Rightarrow>
          (if stateMtx_writer n0 then Blocked n0 w0
           else let n1 = n0\<lparr>stateMtx_readers := stateMtx_readers n0 + 1\<rparr>
                in if state n1 = NODE_RUNNING then
                     (case getAvailableConnection n1 w0 of
                        Return (Some conn) n2 w2 \<Rightarrow> Execute_run exec cmd conn False n2 w2
                      | Return None n2 w2 \<Rightarrow>
                          (if connMtx n2 then Blocked n2 w2
                           else let n3 = n2\<lparr>connMtx := True\<rparr>
                                in if currentNumConnections n3 < maxConnections n3 then
                                     (case createNewConnection None d n3 w2 of
                                        Return (None, err) n4 w4 \<Rightarrow>
                                          Return (False, err)
                                            (n4\<lparr>connMtx := False,
                                                stateMtx_readers := stateMtx_readers n4 - 1\<rparr>)
                                            (w4\<lparr>spawned := spawned w4 @ [HealthCheck]\<rparr>)
                                      | Return (Some conn, Some err) n4 w4 \<Rightarrow>
                                          Return (False, Some err)
                                            (n4\<lparr>connMtx := False,
                                                stateMtx_readers := stateMtx_readers n4 - 1\<rparr>)
                                            (w4\<lparr>spawned := spawned w4 @ [HealthCheck]\<rparr>)
                                      | Return (Some conn, None) n4 w4 \<Rightarrow>
                                          Execute_run exec cmd conn True (n4\<lparr>connMtx := False\<rparr>) w4
                                      | Panic m n4 w4 \<Rightarrow> Panic m n4 w4
                                      | Blocked n4 w4 \<Rightarrow> Blocked n4 w4)
                                   else Return (False, None)
                                          (n3\<lparr>connMtx := False,
                                              stateMtx_readers := stateMtx_readers n3 - 1\<rparr>) w2)
                      | Panic m n2 w2 \<Rightarrow> Panic m n2 w2
                      | Blocked n2 w2 \<Rightarrow> Blocked n2 w2)
                   else Return (False, None)
                          (n1\<lparr>stateMtx_readers := stateMtx_readers n1 - 1\<rparr>) w0)
      | Panic m n0 w0 \<Rightarrow> Panic m n0 w0
      | Blocked n0 w0 \<Rightarrow> Blocked n0 w0)"

section \<open>Idle expiration\<close>

text \<open>
  \<^verbatim>\<open>now.Sub(u)\<close>: the difference of two instants as a \<^verbatim>\<open>time.Duration\<close>, a signed 64-bit count
  that stops at its least and greatest value.
\<close>

definition Time_Sub :: "time \<Rightarrow> time \<Rightarrow> time" where
  "Time_Sub t u = max (- (2 ^ 63)) (min (2 ^ 63 - 1) (t - u))"

text \<open>
  The inner loop of \<^verbatim>\<open>expireIdleConnections\<close>, from index \<open>i\<close>. A stale entry is overwritten
  with the last one and the slice loses its last slot; the index stays. Reading \<^verbatim>\<open>lastUsed\<close> of
  a \<^verbatim>\<open>nil\<close> entry dereferences \<^verbatim>\<open>nil\<close>. The variable \<^verbatim>\<open>count\<close> is only logged and is left out.
\<close>

function expire_loop :: "time \<Rightarrow> nat \<Rightarrow> Node \<Rightarrow> world \<Rightarrow> unit outcome" where
  "expire_loop now i n w =
     (if i < length (available n) then
        (if currentNumConnections n \<le> minConnections n then Return () n w
         else case available n ! i of
                None \<Rightarrow> Panic ''nil pointer dereference'' n w
              | Some conn \<Rightarrow>
                  if idleTimeout n \<le> Time_Sub now (lastUsed conn) then
                    expire_loop now i
                      (n\<lparr>available :=
                           take (length (available n) - 1)
                             ((available n)[i := available n ! (length (available n) - 1)]),
                         currentNumConnections := currentNumConnections n - 1\<rparr>)
                      (w\<lparr>closed := closed w @ [conn]\<rparr>)
                  else expire_loop now (i + 1) n w)
      else Return () n w)"
  by pat_completeness auto
termination
  by (relation "measure (\<lambda>(now, i, n, w). length (available n) - i)") auto

declare expire_loop.simps [simp del]

text \<open>
  One round of the goroutine \<^verbatim>\<open>expireIdleConnections\<close> for a tick of the timer, at the instant
  \<open>now\<close> (\<^verbatim>\<open>time.Now()\<close>): the loop runs under \<open>connMtx\<close>.
\<close>

definition expire_sweep :: "time \<Rightarrow> Node \<Rightarrow> world \<Rightarrow> unit outcome" where
  "expire_sweep now n w =
     (if connMtx n then Blocked n w
      else case expire_loop now 0 (n\<lparr>connMtx := True\<rparr>) w of
             Return u n1 w1 \<Rightarrow> Return () (n1\<lparr>connMtx := False\<rparr>) w1
           | Panic m n1 w1 \<Rightarrow> Panic m n1 w1
           | Blocked n1 w1 \<Rightarrow> Blocked n1 w1)"

section \<open>Health check\<close>

text \<open>
  \<^verbatim>\<open>getHealthCheckCommand\<close>. Modelled from the spec: \<^verbatim>\<open>Build()\<close> of the configured factory
  produces a fresh command instance at each call, as \<^verbatim>\<open>&PingCommand{}\<close> does; the instance gets
  the next free number.
\<close>

definition getHealthCheckCommand :: "Node \<Rightarrow> world \<Rightarrow> command \<times> world" where
  "getHealthCheckCommand n w =
     (case healthCheckBuilder n of
        Some b \<Rightarrow> (BuiltCommand (allocs w), w\<lparr>allocs := allocs w + 1\<rparr>)
      | None \<Rightarrow> (PingCommand (allocs w), w\<lparr>allocs := allocs w + 1\<rparr>))"

text \<open>
  The retry loop of \<^verbatim>\<open>healthCheck\<close> from attempt \<open>k\<close>, with the command \<open>hc\<close> obtained before the
  loop. \<open>dials k\<close> is what the network does at attempt \<open>k\<close>. The loop has no bound: where it never
  ends the result is \<open>None\<close>. The sleep between attempts changes nothing in the node.
\<close>

partial_function (option) healthCheck_loop ::
  "(nat \<Rightarrow> dial) \<Rightarrow> nat \<Rightarrow> command \<Rightarrow> Node \<Rightarrow> world \<Rightarrow> unit outcome option" where
  "healthCheck_loop dials k hc n w =
     (case createNewConnection (Some hc) (dials k) n w of
        Return (None, err) n1 w1 \<Rightarrow> healthCheck_loop dials (k + 1) hc n1 w1
      | Return (Some conn, Some err) n1 w1 \<Rightarrow> healthCheck_loop dials (k + 1) hc n1 w1
      | Return (Some conn, None) n1 w1 \<Rightarrow>
          (case returnConnectionToPool conn True n1 w1 of
             Return u n2 w2 \<Rightarrow> Some (setState NODE_RUNNING n2 w2)
           | Panic m n2 w2 \<Rightarrow> Some (Panic m n2 w2)
           | Blocked n2 w2 \<Rightarrow> Some (Blocked n2 w2))
      | Panic m n1 w1 \<Rightarrow> Some (Panic m n1 w1)
      | Blocked n1 w1 \<Rightarrow> Some (Blocked n1 w1))"

definition healthCheck :: "(nat \<Rightarrow> dial) \<Rightarrow> Node \<Rightarrow> world \<Rightarrow> unit outcome option" where
  "healthCheck dials n w =
     (case setState NODE_HEALTH_CHECKING n w of
        Return u n1 w1 \<Rightarrow>
          (case getHealthCheckCommand n1 w1 of
             (hc, w2) \<Rightarrow> healthCheck_loop dials 0 hc n1 w2)
      | Panic m n1 w1 \<Rightarrow> Some (Panic m n1 w1)
      | Blocked n1 w1 \<Rightarrow> Some (Blocked n1 w1))"

section \<open>Outcomes, concrete inputs and the statements under test\<close>

text \<open>The node as an outcome leaves it, whether the function returned or not.\<close>

fun outcome_node :: "'a outcome \<Rightarrow> Node" where
  "outcome_node (Return x n w) = n"
| "outcome_node (Panic m n w) = n"
| "outcome_node (Blocked n w) = n"

text \<open>A connection that was last used at instant \<open>t\<close> and is in flight.\<close>

definition conn :: "nat \<Rightarrow> time \<Rightarrow> connection" where
  "conn k t = \<lparr> cid = k, inFlight = True, lastUsed = t \<rparr>"

text \<open>
  The node that \<^verbatim>\<open>NewNode\<close> builds for a minimum of 3 and a maximum of 10 connections and no
  health-check factory, and the same node in another state, with a given queue and count.
\<close>

definition node_created :: Node where
  "node_created =
     \<lparr> addr = ''127.0.0.1:8087'', minConnections = 3, maxConnections = 10, idleTimeout = 3000,
       connectTimeout = 1000, requestTimeout = 1000, healthCheckBuilder = None,
       expireTicker = None, connMtx = False, available = [], currentNumConnections = 0,
       stateMtx_readers = 0, stateMtx_writer = False, state = NODE_CREATED \<rparr>"

definition node_in :: "state \<Rightarrow> connection option list \<Rightarrow> uint16 \<Rightarrow> Node" where
  "node_in s q k =
     node_created\<lparr>expireTicker := Some Ticking, available := q, currentNumConnections := k,
                  state := s\<rparr>"

definition world_started :: world where
  "world_started = world0\<lparr>spawned := [ExpireIdle]\<rparr>"

text \<open>
  The statement of the specification that a release stamps the connection: released at the
  instant \<open>now\<close>, the connection stands at the back of the queue with its in-flight flag
  cleared and \<open>now\<close> as its last-used timestamp.
\<close>

definition release_stamps :: "time \<Rightarrow> connection \<Rightarrow> Node \<Rightarrow> world \<Rightarrow> bool" where
  "release_stamps now c n w =
     (case returnConnectionToPool c True n w of
        Return u n' w' \<Rightarrow>
          available n' = available n @ [Some (c\<lparr>inFlight := False, lastUsed := now\<rparr>)]
      | Panic m n' w' \<Rightarrow> False
      | Blocked n' w' \<Rightarrow> False)"

text \<open>Sequencing: the second step runs from where the first one returned.\<close>

fun then_do :: "'a outcome \<Rightarrow> ('a \<Rightarrow> Node \<Rightarrow> world \<Rightarrow> 'b outcome) \<Rightarrow> 'b outcome" where
  "then_do (Return x n w) f = f x n w"
| "then_do (Panic m n w) f = Panic m n w"
| "then_do (Blocked n w) f = Blocked n w"

text \<open>A caller that acquires \<open>k\<close> times in a row; the result lists what it got, in order.\<close>

fun acquire_many :: "nat \<Rightarrow> Node \<Rightarrow> world \<Rightarrow> connection option list outcome" where
  "acquire_many 0 n w = Return [] n w"
| "acquire_many (Suc k) n w =
     then_do (getAvailableConnection n w)
       (\<lambda>c n1 w1. then_do (acquire_many k n1 w1) (\<lambda>cs. Return (c # cs)))"

text \<open>Release \<open>a\<close>, then release \<open>b\<close>, with no acquire in between.\<close>

definition release_two :: "connection \<Rightarrow> connection \<Rightarrow> Node \<Rightarrow> world \<Rightarrow> unit outcome" where
  "release_two a b n w =
     then_do (returnConnectionToPool a True n w) (\<lambda>u. returnConnectionToPool b True)"

text \<open>
  What a run of the loop has done when it ends in the node \<open>n'\<close> having closed the
  connections \<open>ks\<close>: it has changed the queue and the count only; the count was not taken
  below the minimum; nothing happened if the count was not strictly above the minimum; each
  closed connection took one slot off the queue and one off the count; and each was an idle
  connection whose time since last use had reached the idle timeout.
\<close>

definition expire_post :: "time \<Rightarrow> Node \<Rightarrow> Node \<Rightarrow> connection list \<Rightarrow> bool" where
  "expire_post now n n' ks \<longleftrightarrow>
     n' = n\<lparr>available := available n', currentNumConnections := currentNumConnections n'\<rparr> \<and>
     None \<notin> set (available n') \<and>
     (minConnections n \<le> currentNumConnections n \<longrightarrow>
        minConnections n \<le> currentNumConnections n') \<and>
     (currentNumConnections n \<le> minConnections n \<longrightarrow> n' = n \<and> ks = []) \<and>
     unat (currentNumConnections n) = unat (currentNumConnections n') + length ks \<and>
     length (available n) = length (available n') + length ks \<and>
     (\<forall>c\<in>set ks. Some c \<in> set (available n) \<and> idleTimeout n \<le> Time_Sub now (lastUsed c))"

text \<open>
  Five idle connections, four of them stale at the instant 10000, a minimum of 3: the sweep
  closes two stale connections (1, then 5, which the first removal moved to the front) and
  stops at a count of 3, leaving the stale connections 4 and 2 in the queue.
\<close>

definition five_idle :: Node where
  "five_idle =
     node_in NODE_RUNNING
       [Some (conn 1 0), Some (conn 2 0), Some (conn 3 9000), Some (conn 4 0), Some (conn 5 0)] 5"

text \<open>
  The statement of the specification that every attempt has a command of its own, read off
  the surroundings before (\<open>w\<close>) and after (\<open>w'\<close>) a health check: as many command instances
  were produced as creation attempts were made, and no two attempts were handed the same
  instance.
\<close>

definition fresh_probe_per_attempt :: "world \<Rightarrow> world \<Rightarrow> bool" where
  "fresh_probe_per_attempt w w' \<longleftrightarrow>
     allocs w' - allocs w = length (probes w') - length (probes w) \<and>
     distinct (drop (length (probes w)) (probes w'))"

text \<open>An endpoint that refuses the first two connects and accepts the third.\<close>

definition third_time_lucky :: "nat \<Rightarrow> dial" where
  "third_time_lucky k = (if k < 2 then ConnErr (conn 7 0) (CollabError 3) else ConnOk (conn 8 0))"

text \<open>
  The number of idle connections: the entries of the queue that hold a connection. (A drain
  whose last close fails leaves the queue full of \<^verbatim>\<open>nil\<close> slots.)
\<close>

definition idle_length :: "Node \<Rightarrow> nat" where
  "idle_length n = length (filter (\<lambda>x. x \<noteq> None) (available n))"

text \<open>
  The node with its surroundings and the connections that are checked out: those, named by
  their \<open>cid\<close>, that an acquire or a successful creation has handed to a caller and that
  have not been released since. The node itself keeps no such list.
\<close>

type_synonym pool = "Node \<times> world \<times> nat list"

text \<open>
  The operations on the pool, each one a function of \<^verbatim>\<open>node.go\<close> run to its return: acquire
  (\<^verbatim>\<open>getAvailableConnection\<close>), release of a checked-out connection
  (\<^verbatim>\<open>returnConnectionToPool\<close>), create (\<^verbatim>\<open>createNewConnection\<close>), expire (one sweep), drain
  (\<^verbatim>\<open>shutdown\<close>), and a change of the lifecycle state (\<^verbatim>\<open>setState\<close>). A run that panics or
  waits for ever has no successor.
\<close>

datatype pool_op =
  Acquire | Release connection | Create "command option" dial | Expire time
  | Drain "connection \<Rightarrow> error option" | SetState state

fun pool_step :: "pool_op \<Rightarrow> pool \<Rightarrow> pool option" where
  "pool_step Acquire (n, w, out) =
     (case getAvailableConnection n w of
        Return (Some c) n' w' \<Rightarrow> Some (n', w', cid c # out)
      | Return None n' w' \<Rightarrow> Some (n', w', out)
      | Panic m n' w' \<Rightarrow> None
      | Blocked n' w' \<Rightarrow> None)"
| "pool_step (Release c) (n, w, out) =
     (if cid c \<in> set out then
        (case returnConnectionToPool c True n w of
           Return u n' w' \<Rightarrow> Some (n', w', remove1 (cid c) out)
         | Panic m n' w' \<Rightarrow> None
         | Blocked n' w' \<Rightarrow> None)
      else None)"
| "pool_step (Create hc d) (n, w, out) =
     (case createNewConnection hc d n w of
        Return (Some c, None) n' w' \<Rightarrow> Some (n', w', cid c # out)
      | Return (Some c, Some e) n' w' \<Rightarrow> Some (n', w', out)
      | Return (None, e) n' w' \<Rightarrow> Some (n', w', out)
      | Panic m n' w' \<Rightarrow> None
      | Blocked n' w' \<Rightarrow> None)"
| "pool_step (Expire now) (n, w, out) =
     (case expire_sweep now n w of
        Return u n' w' \<Rightarrow> Some (n', w', out)
      | Panic m n' w' \<Rightarrow> None
      | Blocked n' w' \<Rightarrow> None)"
| "pool_step (Drain close_err) (n, w, out) =
     (case shutdown close_err n w of
        Return e n' w' \<Rightarrow> Some (n', w', out)
      | Panic m n' w' \<Rightarrow> None
      | Blocked n' w' \<Rightarrow> None)"
| "pool_step (SetState s) (n, w, out) =
     (case setState s n w of
        Return u n' w' \<Rightarrow> Some (n', w', out)
      | Panic m n' w' \<Rightarrow> None
      | Blocked n' w' \<Rightarrow> None)"

fun pool_size :: "pool \<Rightarrow> nat" where
  "pool_size (n, w, out) = idle_length n + length out"

text \<open>
  The invariant as the specification states it, on the length of the queue; the same on the
  number of connections in the queue; and the latter in the arithmetic of the counter, a
  \<^verbatim>\<open>uint16\<close>.
\<close>

fun pool_inv_len :: "pool \<Rightarrow> bool" where
  "pool_inv_len (n, w, out) \<longleftrightarrow>
     unat (currentNumConnections n) = length (available n) + length out"

fun pool_inv :: "pool \<Rightarrow> bool" where
  "pool_inv (n, w, out) \<longleftrightarrow> unat (currentNumConnections n) = idle_length n + length out"

fun pool_inv16 :: "pool \<Rightarrow> bool" where
  "pool_inv16 (n, w, out) \<longleftrightarrow> currentNumConnections n = of_nat (idle_length n + length out)"

text \<open>
  The reachable states: from a node fresh from \<^verbatim>\<open>NewNode\<close>, with nothing checked out, by any
  sequence of operations.
\<close>

inductive reachable :: "pool \<Rightarrow> bool" where
  start: "NewNode dflt resolve options = Inr n \<Longrightarrow> reachable (n, world0, [])"
| step: "reachable s \<Longrightarrow> pool_step op s = Some s' \<Longrightarrow> reachable s'"

definition dflt_fixture :: NodeOptions where
  "dflt_fixture =
     \<lparr> RemoteAddress = ''127.0.0.1:8087'', MinConnections = 3, MaxConnections = 10,
       IdleTimeout = 3000, ConnectTimeout = 1000, RequestTimeout = 1000,
       HealthCheckBuilder = None \<rparr>"

definition after_creates :: "nat \<Rightarrow> pool" where
  "after_creates k =
     (node_created\<lparr>currentNumConnections := of_nat k\<rparr>, world0\<lparr>probes := replicate k None\<rparr>,
      rev [0..<k])"

text \<open>
  A node fresh from \<^verbatim>\<open>NewNode\<close> creates connection 1 and releases it to the pool; then a drain
  in which the close of that connection fails.
\<close>

definition one_idle :: pool where
  "one_idle =
     (node_created\<lparr>available := [Some ((conn 1 0)\<lparr>inFlight := False\<rparr>)],
                   currentNumConnections := 1\<rparr>,
      world0\<lparr>probes := [None]\<rparr>, [])"

definition failed_drain :: pool where
  "failed_drain =
     (node_created\<lparr>available := [None], currentNumConnections := 0, state := NODE_ERROR\<rparr>,
      world0\<lparr>probes := [None], closed := [(conn 1 0)\<lparr>inFlight := False\<rparr>]\<rparr>, [])"

section \<open>Returning a connection to the pool\<close>

lemma state_byte_below_shutting_down:
  "state_byte s < 4 \<longleftrightarrow> s \<noteq> NODE_SHUTTING_DOWN \<and> s \<noteq> NODE_SHUTDOWN"
  by (cases s) simp_all

text \<open>
  C10. A connection returned while the state is ERROR is appended to the idle queue with its
  in-flight flag cleared, and is not closed: the byte of ERROR is 0, below that of
  SHUTTING_DOWN. In every state, the returned connection is closed and the live count
  decremented exactly when the state is SHUTTING_DOWN or SHUTDOWN; otherwise it is pooled. (The
  function waits only when it is asked to lock a mutex that is held.)
\<close>

theorem returnConnectionToPool_in_ERROR:
  assumes "\<not> (shouldLock \<and> connMtx n)"
  shows "(state n = NODE_ERROR \<longrightarrow>
            state_byte (state n) = 0 \<and> state_byte (state n) < state_byte NODE_SHUTTING_DOWN \<and>
            returnConnectionToPool c shouldLock n w =
              Return () (n\<lparr>available := available n @ [Some (c\<lparr>inFlight := False\<rparr>)]\<rparr>) w) \<and>
         returnConnectionToPool c shouldLock n w =
           (if state n = NODE_SHUTTING_DOWN \<or> state n = NODE_SHUTDOWN
            then Return () (n\<lparr>currentNumConnections := currentNumConnections n - 1\<rparr>)
                   (w\<lparr>closed := closed w @ [c]\<rparr>)
            else Return () (n\<lparr>available := available n @ [Some (c\<lparr>inFlight := False\<rparr>)]\<rparr>) w)"
  using assms
  by (auto simp: returnConnectionToPool_def state_byte_below_shutting_down)

theorem returnConnectionToPool_in_ERROR_witness:
  "\<not> (True \<and> connMtx (node_in NODE_ERROR [] 1)) \<and>
   returnConnectionToPool (conn 1 5) True (node_in NODE_ERROR [] 1) world_started =
     Return () (node_in NODE_ERROR [Some ((conn 1 5)\<lparr>inFlight := False\<rparr>)] 1) world_started \<and>
   returnConnectionToPool (conn 1 5) True (node_in NODE_SHUTDOWN [] 1) world_started =
     Return () (node_in NODE_SHUTDOWN [] 0) (world_started\<lparr>closed := [conn 1 5]\<rparr>)"
proof -
  have free: "\<not> (True \<and> connMtx (node_in s [] 1))" for s
    by (simp add: node_in_def node_created_def)
  show ?thesis
    using returnConnectionToPool_in_ERROR [OF free [of NODE_ERROR], of "conn 1 5" world_started]
      returnConnectionToPool_in_ERROR [OF free [of NODE_SHUTDOWN], of "conn 1 5" world_started]
    by (simp add: node_in_def node_created_def world_started_def world0_def)
qed

text \<open>
  C9, as stated, fails: \<^verbatim>\<open>returnConnectionToPool\<close> never writes \<^verbatim>\<open>lastUsed\<close>. A connection last used
  at instant 5 and released to a running node at instant 100 is pooled with timestamp 5.
\<close>

theorem release_keeps_lastUsed_counterexample:
  "\<not> release_stamps 100 (conn 1 5) (node_in NODE_RUNNING [] 1) world_started \<and>
   returnConnectionToPool (conn 1 5) True (node_in NODE_RUNNING [] 1) world_started =
     Return () (node_in NODE_RUNNING [Some \<lparr>cid = 1, inFlight = False, lastUsed = 5\<rparr>] 1)
       world_started"
  by (simp add: release_stamps_def returnConnectionToPool_def node_in_def node_created_def
      conn_def)

text \<open>
  C9, amended. Whenever a connection is released to the pool while the state is below
  SHUTTING_DOWN, the pool clears its in-flight flag and appends it to the back of the idle
  queue; its last-used timestamp is left as it was, and nothing else in the node changes.
\<close>

theorem returnConnectionToPool_release:
  assumes "state_byte (state n) < state_byte NODE_SHUTTING_DOWN"
    and "\<not> (shouldLock \<and> connMtx n)"
  shows "returnConnectionToPool c shouldLock n w =
           Return () (n\<lparr>available := available n @ [Some (c\<lparr>inFlight := False\<rparr>)]\<rparr>) w \<and>
         inFlight (c\<lparr>inFlight := False\<rparr>) = False \<and>
         lastUsed (c\<lparr>inFlight := False\<rparr>) = lastUsed c \<and>
         cid (c\<lparr>inFlight := False\<rparr>) = cid c"
  using assms by (simp add: returnConnectionToPool_def)

theorem returnConnectionToPool_release_witness:
  "state_byte (state (node_in NODE_RUNNING [Some (conn 2 7)] 2)) < state_byte NODE_SHUTTING_DOWN \<and>
   \<not> (True \<and> connMtx (node_in NODE_RUNNING [Some (conn 2 7)] 2)) \<and>
   returnConnectionToPool (conn 1 5) True (node_in NODE_RUNNING [Some (conn 2 7)] 2) world_started =
     Return ()
       (node_in NODE_RUNNING [Some (conn 2 7), Some \<lparr>cid = 1, inFlight = False, lastUsed = 5\<rparr>] 2)
       world_started"
proof -
  have below: "state_byte (state (node_in NODE_RUNNING [Some (conn 2 7)] 2))
               < state_byte NODE_SHUTTING_DOWN"
    by (simp add: node_in_def)
  have free: "\<not> (True \<and> connMtx (node_in NODE_RUNNING [Some (conn 2 7)] 2))"
    by (simp add: node_in_def node_created_def)
  show ?thesis
    using below free
      returnConnectionToPool_release [OF below free, of "conn 1 5" world_started]
    by (simp add: node_in_def node_created_def conn_def)
qed

section \<open>Start when a creation attempt fails\<close>

lemma Start_loop_first_success_blocks:
  assumes "connMtx n" and "dials i = ConnOk c"
  shows "Start_loop dials (Suc k) i n w = Blocked n (w\<lparr>probes := probes w @ [None]\<rparr>)"
  using assms by (simp add: createNewConnection_def)

lemma Start_loop_first_failure_returns:
  assumes "\<forall>c. dials i \<noteq> ConnOk c"
  shows "Start_loop dials (Suc k) i n w = Return () n (w\<lparr>probes := probes w @ [None]\<rparr>)"
  using assms by (cases "dials i") (simp_all add: createNewConnection_def)

text \<open>
  Whatever the network does, the only error \<^verbatim>\<open>Start\<close> ever returns is the illegal-state error
  of its state check: a creation error never reaches the caller.
\<close>

lemma Start_error_is_illegal_state:
  assumes "Start dials n w = Return (Some e) n' w'"
  shows "e = IllegalState [NODE_CREATED] (state n) \<and> state n \<noteq> NODE_CREATED"
  using assms
  by (auto simp: Start_def stateCheck_def setState_def
      split: if_splits outcome.splits option.splits)

text \<open>
  From the state CREATED with the locks free and a non-zero minimum: when the first attempt
  succeeds, \<^verbatim>\<open>createNewConnection\<close> waits for \<open>connMtx\<close>, which \<^verbatim>\<open>Start\<close> itself holds, and \<^verbatim>\<open>Start\<close>
  never returns; when the first attempt fails, \<^verbatim>\<open>Start\<close> returns no error and the node is
  RUNNING with an empty pool.
\<close>

lemma Start_first_attempt:
  assumes "state n = NODE_CREATED" and "\<not> stateMtx_writer n" and "stateMtx_readers n = 0"
    and "\<not> connMtx n" and "minConnections n \<noteq> 0"
  shows "dials 0 = ConnOk c \<Longrightarrow>
           Start dials n w = Blocked (n\<lparr>connMtx := True\<rparr>) (w\<lparr>probes := probes w @ [None]\<rparr>)"
    and "\<forall>c. dials 0 \<noteq> ConnOk c \<Longrightarrow>
           Start dials n w =
             Return None (n\<lparr>expireTicker := Some Ticking, state := NODE_RUNNING\<rparr>)
               (w\<lparr>probes := probes w @ [None], spawned := spawned w @ [ExpireIdle]\<rparr>)"
proof -
  from assms(5) obtain k where k: "unat (minConnections n) = Suc k"
    by (metis not0_implies_Suc unat_eq_0)
  show "dials 0 = ConnOk c \<Longrightarrow>
           Start dials n w = Blocked (n\<lparr>connMtx := True\<rparr>) (w\<lparr>probes := probes w @ [None]\<rparr>)"
    using assms(1-4)
    by (simp add: Start_def stateCheck_def k Start_loop_first_success_blocks
        del: Start_loop.simps)
  show "\<forall>c. dials 0 \<noteq> ConnOk c \<Longrightarrow>
           Start dials n w =
             Return None (n\<lparr>expireTicker := Some Ticking, state := NODE_RUNNING\<rparr>)
               (w\<lparr>probes := probes w @ [None], spawned := spawned w @ [ExpireIdle]\<rparr>)"
    using assms(1-4)
    by (simp add: Start_def stateCheck_def k Start_loop_first_failure_returns setState_def
        del: Start_loop.simps)
qed

text \<open>
  C1. The claim: when creation attempt \<open>k\<close> fails, \<^verbatim>\<open>Start\<close> returns the creation error, the state
  stays CREATED and the pool holds the \<open>k - 1\<close> connections made before. The code, for a
  minimum of 3: when attempt 1 fails, \<^verbatim>\<open>Start\<close> returns no error and the node is RUNNING with an
  empty pool; when attempt 1 succeeds and attempt 2 would fail, \<^verbatim>\<open>Start\<close> never returns: it
  waits inside the first \<^verbatim>\<open>createNewConnection\<close> for the mutex it holds, with an empty pool.
\<close>

theorem Start_creation_failure:
  "Start (\<lambda>i. NewErr None (CollabError 7)) node_created world0 =
     Return None (node_in NODE_RUNNING [] 0) (world0\<lparr>probes := [None], spawned := [ExpireIdle]\<rparr>) \<and>
   Start (\<lambda>i. if i = 1 then ConnErr (conn 2 0) (CollabError 7) else ConnOk (conn (i + 1) 0))
       node_created world0 =
     Blocked (node_created\<lparr>connMtx := True\<rparr>) (world0\<lparr>probes := [None]\<rparr>)"
  by code_simp

section \<open>Stop when a close fails\<close>

text \<open>The only error \<^verbatim>\<open>Stop\<close> ever returns is the illegal-state error of its state check.\<close>

lemma Stop_error_is_illegal_state:
  assumes "Stop close_err n w = Return (Some e) n' w'"
  shows "e = IllegalState [NODE_CREATED, NODE_HEALTH_CHECKING] (state n)"
  using assms
  by (auto simp: Stop_def stateCheck_def Let_def
      split: if_splits outcome.splits option.splits)

text \<open>
  What the loop of the drain leaves in \<^verbatim>\<open>err\<close> is the result of the last \<^verbatim>\<open>close()\<close>: the results
  of the earlier ones are overwritten.
\<close>

lemma shutdown_loop_last_error:
  "\<exists>n' w'. shutdown_loop close_err (map Some cs) i err n w =
             Return (last (err # map close_err cs)) n' w'"
  by (induction cs arbitrary: i err n w) simp_all

text \<open>
  C3. The claim: when at least one close of the drain fails, the node goes to ERROR and
  \<^verbatim>\<open>Stop\<close> returns that error. The code, stopping a health-checking node with two idle
  connections: when the close of the first fails and that of the second succeeds, the failure
  is overwritten, the node goes to SHUTDOWN and \<^verbatim>\<open>Stop\<close> returns no error; when the close of the
  second fails, the node goes to ERROR (its queue keeping two \<^verbatim>\<open>nil\<close> slots) and \<^verbatim>\<open>Stop\<close> still
  returns no error, since it drops what \<^verbatim>\<open>shutdown\<close> returns.
\<close>

theorem Stop_close_failure:
  "Stop (\<lambda>c. if cid c = 1 then Some (CollabError 9) else None)
       (node_in NODE_HEALTH_CHECKING [Some (conn 1 0), Some (conn 2 0)] 2) world_started =
     Return None ((node_in NODE_SHUTDOWN [] 0)\<lparr>expireTicker := Some Stopped\<rparr>)
       (world0\<lparr>closed := [conn 1 0, conn 2 0]\<rparr>) \<and>
   Stop (\<lambda>c. if cid c = 2 then Some (CollabError 9) else None)
       (node_in NODE_HEALTH_CHECKING [Some (conn 1 0), Some (conn 2 0)] 2) world_started =
     Return None ((node_in NODE_ERROR [None, None] 0)\<lparr>expireTicker := Some Stopped\<rparr>)
       (world0\<lparr>closed := [conn 1 0, conn 2 0]\<rparr>)"
  by code_simp

section \<open>Dispatch: the two rejections, and a failing command\<close>

text \<open>
  C4. With the locks free, \<^verbatim>\<open>Execute\<close> returns \<open>executed = false\<close> and no error, and leaves the
  node and its surroundings exactly as they were (nothing pooled, created, closed or started),
  in both rejections: when the state check has passed and the state is not RUNNING, that is, it
  is HEALTH_CHECKING; and when the state is RUNNING, the idle queue is empty and the live count
  has reached the maximum. That it returns is part of the statement: the outcome is \<open>Return\<close>.
\<close>

theorem Execute_rejects:
  assumes "\<not> stateMtx_writer n" and "\<not> connMtx n"
    and "state n = NODE_HEALTH_CHECKING \<or>
         (state n = NODE_RUNNING \<and> available n = [] \<and>
          maxConnections n \<le> currentNumConnections n)"
  shows "Execute exec d cmd n w = Return (False, None) n w"
  using assms
  by (auto simp: Execute_def stateCheck_def getAvailableConnection_def Let_def)

theorem Execute_rejects_witness:
  "\<not> stateMtx_writer (node_in NODE_RUNNING [] 10) \<and> \<not> connMtx (node_in NODE_RUNNING [] 10) \<and>
   state (node_in NODE_RUNNING [] 10) = NODE_RUNNING \<and>
   available (node_in NODE_RUNNING [] 10) = [] \<and>
   maxConnections (node_in NODE_RUNNING [] 10) \<le> currentNumConnections (node_in NODE_RUNNING [] 10) \<and>
   Execute (\<lambda>c k. (c, None)) (ConnOk (conn 11 0)) (OtherCommand 1) (node_in NODE_RUNNING [] 10)
       world_started =
     Return (False, None) (node_in NODE_RUNNING [] 10) world_started \<and>
   state (node_in NODE_HEALTH_CHECKING [Some (conn 1 0)] 1) = NODE_HEALTH_CHECKING \<and>
   Execute (\<lambda>c k. (c, None)) (ConnOk (conn 11 0)) (OtherCommand 1)
       (node_in NODE_HEALTH_CHECKING [Some (conn 1 0)] 1) world_started =
     Return (False, None) (node_in NODE_HEALTH_CHECKING [Some (conn 1 0)] 1) world_started"
proof -
  have w: "\<not> stateMtx_writer (node_in s q k)" and c: "\<not> connMtx (node_in s q k)" for s q k
    by (simp_all add: node_in_def node_created_def)
  have full: "state (node_in NODE_RUNNING [] 10) = NODE_HEALTH_CHECKING \<or>
              (state (node_in NODE_RUNNING [] 10) = NODE_RUNNING \<and>
               available (node_in NODE_RUNNING [] 10) = [] \<and>
               maxConnections (node_in NODE_RUNNING [] 10)
                 \<le> currentNumConnections (node_in NODE_RUNNING [] 10))"
    by (simp add: node_in_def node_created_def)
  have hc: "state (node_in NODE_HEALTH_CHECKING [Some (conn 1 0)] 1) = NODE_HEALTH_CHECKING \<or>
            (state (node_in NODE_HEALTH_CHECKING [Some (conn 1 0)] 1) = NODE_RUNNING \<and>
             available (node_in NODE_HEALTH_CHECKING [Some (conn 1 0)] 1) = [] \<and>
             maxConnections (node_in NODE_HEALTH_CHECKING [Some (conn 1 0)] 1)
               \<le> currentNumConnections (node_in NODE_HEALTH_CHECKING [Some (conn 1 0)] 1))"
    by (simp add: node_in_def)
  show ?thesis
    using w c full
      Execute_rejects [OF w c full, of "\<lambda>c k. (c, None)" "ConnOk (conn 11 0)" "OtherCommand 1"
        world_started]
      Execute_rejects [OF w c hc, of "\<lambda>c k. (c, None)" "ConnOk (conn 11 0)" "OtherCommand 1"
        world_started]
    by (simp add: node_in_def node_created_def)
qed

text \<open>
  A connection that \<^verbatim>\<open>Execute\<close> creates never gets to run the command: when the queue gives no
  connection, what \<^verbatim>\<open>Execute\<close> does is the same whatever \<^verbatim>\<open>execute\<close> would do on a connection.
  (A successful creation waits for \<open>connMtx\<close>, which \<^verbatim>\<open>Execute\<close> holds at that point.) So the
  connection a command runs on is always the one taken from the front of the queue.
\<close>

lemma Execute_created_never_runs:
  assumes "available n = [] \<or> (\<exists>rest. available n = None # rest)"
  shows "Execute exec d cmd n w = Execute exec' d cmd n w"
  using assms
  by (cases d)
    (auto simp: Execute_def stateCheck_def getAvailableConnection_def Let_def
      createNewConnection_def split: option.splits)

text \<open>
  C5. When the command fails on the acquired connection, \<^verbatim>\<open>Execute\<close> returns
  \<open>executed = false\<close> with the error of the execution, and the connection, as \<^verbatim>\<open>execute\<close> left it
  and with its in-flight flag cleared, is at the back of the idle queue; it is not closed and
  the live count is unchanged (nothing else in the node or its surroundings changes). The
  state is RUNNING throughout, hence below SHUTTING_DOWN.
\<close>

theorem Execute_command_failure:
  assumes "state n = NODE_RUNNING" and "\<not> stateMtx_writer n" and "\<not> connMtx n"
    and "available n = Some c # rest" and "exec c cmd = (c', Some e)"
  shows "Execute exec d cmd n w =
           Return (False, Some e) (n\<lparr>available := rest @ [Some (c'\<lparr>inFlight := False\<rparr>)]\<rparr>) w \<and>
         state_byte (state n) < state_byte NODE_SHUTTING_DOWN"
  using assms
  by (simp add: Execute_def stateCheck_def getAvailableConnection_def Let_def
      Execute_run_def returnConnectionToPool_def)

theorem Execute_command_failure_witness:
  "state (node_in NODE_RUNNING [Some (conn 1 0), Some (conn 2 0)] 2) = NODE_RUNNING \<and>
   \<not> stateMtx_writer (node_in NODE_RUNNING [Some (conn 1 0), Some (conn 2 0)] 2) \<and>
   \<not> connMtx (node_in NODE_RUNNING [Some (conn 1 0), Some (conn 2 0)] 2) \<and>
   Execute (\<lambda>c k. (c\<lparr>lastUsed := 50\<rparr>, Some (CollabError 4))) (ConnOk (conn 3 0)) (OtherCommand 1)
       (node_in NODE_RUNNING [Some (conn 1 0), Some (conn 2 0)] 2) world_started =
     Return (False, Some (CollabError 4))
       (node_in NODE_RUNNING [Some (conn 2 0), Some \<lparr>cid = 1, inFlight = False, lastUsed = 50\<rparr>] 2)
       world_started"
proof -
  let ?n = "node_in NODE_RUNNING [Some (conn 1 0), Some (conn 2 0)] 2"
  have s: "state ?n = NODE_RUNNING" and w: "\<not> stateMtx_writer ?n" and c: "\<not> connMtx ?n"
    and a: "available ?n = Some (conn 1 0) # [Some (conn 2 0)]"
    by (simp_all add: node_in_def node_created_def)
  show ?thesis
    using s w c
      Execute_command_failure [where exec = "\<lambda>c k. (c\<lparr>lastUsed := 50\<rparr>, Some (CollabError 4))"
        and cmd = "OtherCommand 1" and c' = "(conn 1 0)\<lparr>lastUsed := 50\<rparr>"
        and e = "CollabError 4" and d = "ConnOk (conn 3 0)" and w = world_started,
        OF s w c a]
    by (simp add: node_in_def node_created_def conn_def)
qed

section \<open>The order of the idle queue\<close>

lemma acquire_many_prefix:
  assumes "\<not> connMtx n" and "available n = xs @ ys"
  shows "acquire_many (length xs) n w = Return xs (n\<lparr>available := ys\<rparr>) w"
  using assms
proof (induction xs arbitrary: n)
  case Nil
  then show ?case by simp
next
  case (Cons x xs)
  have "\<not> connMtx (n\<lparr>available := xs @ ys\<rparr>)"
    and "available (n\<lparr>available := xs @ ys\<rparr>) = xs @ ys"
    using Cons.prems by simp_all
  from Cons.IH [OF this] Cons.prems show ?case
    by (simp add: getAvailableConnection_def)
qed

text \<open>
  C6, as stated, fails when the queue is not empty: with one connection (number 9) idle,
  releasing connection 1 and then connection 2 leaves 9 at the front, and the next acquire
  returns 9, not 1.
\<close>

theorem fifo_next_acquire_counterexample:
  "then_do (release_two (conn 1 0) (conn 2 0) (node_in NODE_RUNNING [Some (conn 9 0)] 3)
       world_started) (\<lambda>u. getAvailableConnection) =
     Return (Some (conn 9 0))
       (node_in NODE_RUNNING
          [Some ((conn 1 0)\<lparr>inFlight := False\<rparr>), Some ((conn 2 0)\<lparr>inFlight := False\<rparr>)] 3)
       world_started \<and>
   cid (conn 9 0) \<noteq> cid (conn 1 0)"
  by (simp add: release_two_def returnConnectionToPool_def getAvailableConnection_def
      node_in_def node_created_def conn_def)

text \<open>
  C6, amended. While the state is below SHUTTING_DOWN (and \<open>connMtx\<close> is free), releasing \<open>a\<close>
  and then \<open>b\<close> appends them, in that order and with the in-flight flag cleared, behind the
  entries \<open>q\<close> already in the queue; an acquire takes the front of the queue. So the acquires
  that follow return the entries of \<open>q\<close> in order, then \<open>a\<close>, then \<open>b\<close>, and the next acquire
  returns \<open>a\<close> when the queue was empty before the releases.
\<close>

theorem pool_is_fifo:
  assumes "state_byte (state n) < state_byte NODE_SHUTTING_DOWN" and "\<not> connMtx n"
    and "a' = a\<lparr>inFlight := False\<rparr>" and "b' = b\<lparr>inFlight := False\<rparr>"
    and "n2 = n\<lparr>available := available n @ [Some a', Some b']\<rparr>"
  shows "release_two a b n w = Return () n2 w \<and>
         acquire_many (length (available n) + 2) n2 w =
           Return (available n @ [Some a', Some b']) (n2\<lparr>available := []\<rparr>) w \<and>
         (available n = [] \<longrightarrow>
            getAvailableConnection n2 w = Return (Some a') (n2\<lparr>available := [Some b']\<rparr>) w)"
proof -
  have rel: "release_two a b n w = Return () n2 w"
    using assms by (simp add: release_two_def returnConnectionToPool_def)
  have free: "\<not> connMtx n2" and av: "available n2 = (available n @ [Some a', Some b']) @ []"
    using assms by simp_all
  have "acquire_many (length (available n @ [Some a', Some b'])) n2 w =
          Return (available n @ [Some a', Some b']) (n2\<lparr>available := []\<rparr>) w"
    by (rule acquire_many_prefix [OF free av])
  moreover have "available n = [] \<longrightarrow>
      getAvailableConnection n2 w = Return (Some a') (n2\<lparr>available := [Some b']\<rparr>) w"
    using assms by (simp add: getAvailableConnection_def)
  ultimately show ?thesis using rel by simp
qed

theorem pool_is_fifo_witness:
  "state_byte (state (node_in NODE_RUNNING [Some (conn 9 0)] 3)) < state_byte NODE_SHUTTING_DOWN \<and>
   \<not> connMtx (node_in NODE_RUNNING [Some (conn 9 0)] 3) \<and>
   release_two (conn 1 0) (conn 2 0) (node_in NODE_RUNNING [Some (conn 9 0)] 3) world_started =
     Return ()
       (node_in NODE_RUNNING
          [Some (conn 9 0), Some ((conn 1 0)\<lparr>inFlight := False\<rparr>),
           Some ((conn 2 0)\<lparr>inFlight := False\<rparr>)] 3) world_started \<and>
   acquire_many 3
       (node_in NODE_RUNNING
          [Some (conn 9 0), Some ((conn 1 0)\<lparr>inFlight := False\<rparr>),
           Some ((conn 2 0)\<lparr>inFlight := False\<rparr>)] 3) world_started =
     Return [Some (conn 9 0), Some ((conn 1 0)\<lparr>inFlight := False\<rparr>),
             Some ((conn 2 0)\<lparr>inFlight := False\<rparr>)]
       (node_in NODE_RUNNING [] 3) world_started"
proof -
  let ?n = "node_in NODE_RUNNING [Some (conn 9 0)] 3"
  have below: "state_byte (state ?n) < state_byte NODE_SHUTTING_DOWN"
    and free: "\<not> connMtx ?n"
    by (simp_all add: node_in_def node_created_def)
  show ?thesis
    using below free pool_is_fifo [OF below free refl refl refl, of "conn 1 0" "conn 2 0" world_started]
    by (simp add: node_in_def node_created_def numeral_3_eq_3)
qed

section \<open>The idle-expiration sweep\<close>

lemma word_dec_above:
  fixes m c :: "'a::len word"
  assumes "m < c"
  shows "unat c = Suc (unat (c - 1))" and "m \<le> c - 1"
proof -
  from assms have nz: "c \<noteq> 0" by auto
  then have u: "unat (c - 1) = unat c - 1" by (rule unat_minus_one)
  from nz have "0 < unat c" by (simp add: unat_gt_0)
  with u show "unat c = Suc (unat (c - 1))" by simp
  from assms have "unat m < unat c" by (simp add: word_less_nat_alt)
  with u show "m \<le> c - 1" by (simp add: word_le_nat_alt)
qed

lemma set_swap_remove:
  assumes "i < length xs"
  shows "set (take (length xs - 1) (xs[i := xs ! (length xs - 1)])) \<subseteq> set xs"
proof -
  from assms have "xs ! (length xs - 1) \<in> set xs" by simp
  then have "set (xs[i := xs ! (length xs - 1)]) \<subseteq> set xs"
    by (intro set_update_subsetI) simp_all
  with set_take_subset [of "length xs - 1" "xs[i := xs ! (length xs - 1)]"] show ?thesis
    by blast
qed

lemma expire_post_refl: "None \<notin> set (available n) \<Longrightarrow> expire_post now n n []"
  by (simp add: expire_post_def)

lemma expire_post_step:
  assumes i: "i < length (available n)"
    and above: "\<not> currentNumConnections n \<le> minConnections n"
    and at: "available n ! i = Some c"
    and stale: "idleTimeout n \<le> Time_Sub now (lastUsed c)"
    and n1: "n1 = n\<lparr>available := take (length (available n) - 1)
                        ((available n)[i := available n ! (length (available n) - 1)]),
                    currentNumConnections := currentNumConnections n - 1\<rparr>"
    and post: "expire_post now n1 n' ks"
  shows "expire_post now n n' (c # ks)"
proof -
  from above have lt: "minConnections n < currentNumConnections n" by simp
  note dec = word_dec_above [OF lt]
  have sub: "set (available n1) \<subseteq> set (available n)"
    using set_swap_remove [OF i] n1 by simp
  have len: "length (available n) = Suc (length (available n1))"
    using i n1 by simp
  have mem: "Some c \<in> set (available n)"
    using i at by (metis nth_mem)
  from post have p:
    "n' = n1\<lparr>available := available n', currentNumConnections := currentNumConnections n'\<rparr>"
    "None \<notin> set (available n')"
    "minConnections n1 \<le> currentNumConnections n1 \<longrightarrow> minConnections n1 \<le> currentNumConnections n'"
    "unat (currentNumConnections n1) = unat (currentNumConnections n') + length ks"
    "length (available n1) = length (available n') + length ks"
    "\<forall>c\<in>set ks. Some c \<in> set (available n1) \<and> idleTimeout n1 \<le> Time_Sub now (lastUsed c)"
    by (simp_all add: expire_post_def)
  have a: "n' = n\<lparr>available := available n', currentNumConnections := currentNumConnections n'\<rparr>"
    using p(1) n1 by simp
  have b: "minConnections n \<le> currentNumConnections n'"
    using p(3) dec(2) n1 by simp
  have c: "unat (currentNumConnections n) = unat (currentNumConnections n') + length (c # ks)"
    using p(4) dec(1) n1 by simp
  have d: "length (available n) = length (available n') + length (c # ks)"
    using p(5) len by simp
  have e: "\<forall>c'\<in>set (c # ks). Some c' \<in> set (available n) \<and>
             idleTimeout n \<le> Time_Sub now (lastUsed c')"
    using p(6) sub mem stale n1 by auto
  show ?thesis
    unfolding expire_post_def using a p(2) b c d e above by blast
qed

lemma expire_loop_spec:
  assumes "None \<notin> set (available n)"
  shows "\<exists>n' ks. expire_loop now i n w = Return () n' (w\<lparr>closed := closed w @ ks\<rparr>) \<and>
           expire_post now n n' ks"
  using assms
proof (induction now i n w rule: expire_loop.induct)
  case (1 now i n w)
  show ?case
  proof (cases "i < length (available n) \<and> \<not> currentNumConnections n \<le> minConnections n")
    case False
    then have "expire_loop now i n w = Return () n (w\<lparr>closed := closed w @ []\<rparr>)"
      by (subst expire_loop.simps) auto
    with expire_post_refl [OF "1.prems"] show ?thesis by blast
  next
    case True
    then have i: "i < length (available n)"
      and above: "\<not> currentNumConnections n \<le> minConnections n" by simp_all
    from i "1.prems" obtain c where at: "available n ! i = Some c"
      by (metis nth_mem not_None_eq)
    show ?thesis
    proof (cases "idleTimeout n \<le> Time_Sub now (lastUsed c)")
      case stale: True
      define n1 where "n1 = n\<lparr>available := take (length (available n) - 1)
                        ((available n)[i := available n ! (length (available n) - 1)]),
                    currentNumConnections := currentNumConnections n - 1\<rparr>"
      have "set (available n1) \<subseteq> set (available n)"
        using set_swap_remove [OF i] by (simp add: n1_def)
      with "1.prems" have nn: "None \<notin> set (available n1)" by blast
      from "1.IH"(1) [OF i above at stale] nn
      obtain n' ks where r: "expire_loop now i n1 (w\<lparr>closed := closed w @ [c]\<rparr>) =
            Return () n' (w\<lparr>closed := closed w @ [c],
                            closed := closed (w\<lparr>closed := closed w @ [c]\<rparr>) @ ks\<rparr>)"
        and post: "expire_post now n1 n' ks"
        unfolding n1_def by blast
      have "expire_loop now i n w = Return () n' (w\<lparr>closed := closed w @ (c # ks)\<rparr>)"
        using i above at stale r by (subst expire_loop.simps) (simp add: n1_def)
      with expire_post_step [OF i above at stale n1_def post] show ?thesis by blast
    next
      case fresh: False
      from "1.IH"(2) [OF i above at fresh "1.prems"]
      obtain n' ks where r: "expire_loop now (i + 1) n w =
            Return () n' (w\<lparr>closed := closed w @ ks\<rparr>)"
        and post: "expire_post now n n' ks" by blast
      have "expire_loop now i n w = Return () n' (w\<lparr>closed := closed w @ ks\<rparr>)"
        using i above at fresh r by (subst expire_loop.simps) simp
      with post show ?thesis by blast
    qed
  qed
qed

text \<open>
  When every entry from the start of the queue is stale, the loop removes entries until the
  queue is used up or the count is down to the minimum, whichever comes first.
\<close>

lemma expire_loop_all_stale:
  assumes "\<forall>x\<in>set (available n). \<exists>c. x = Some c \<and> idleTimeout n \<le> Time_Sub now (lastUsed c)"
  shows "\<exists>n' ks. expire_loop now i n w = Return () n' (w\<lparr>closed := closed w @ ks\<rparr>) \<and>
           length ks = min (length (available n) - i)
                         (unat (currentNumConnections n) - unat (minConnections n))"
  using assms
proof (induction now i n w rule: expire_loop.induct)
  case (1 now i n w)
  show ?case
  proof (cases "i < length (available n) \<and> \<not> currentNumConnections n \<le> minConnections n")
    case False
    then have "expire_loop now i n w = Return () n (w\<lparr>closed := closed w @ []\<rparr>)"
      by (subst expire_loop.simps) auto
    moreover from False have
      "min (length (available n) - i)
         (unat (currentNumConnections n) - unat (minConnections n)) = 0"
      by (auto simp: word_le_nat_alt)
    ultimately show ?thesis by (metis list.size(3))
  next
    case True
    then have i: "i < length (available n)"
      and above: "\<not> currentNumConnections n \<le> minConnections n" by simp_all
    from i "1.prems" obtain c where at: "available n ! i = Some c"
      and stale: "idleTimeout n \<le> Time_Sub now (lastUsed c)"
      by (metis nth_mem)
    define n1 where "n1 = n\<lparr>available := take (length (available n) - 1)
                      ((available n)[i := available n ! (length (available n) - 1)]),
                  currentNumConnections := currentNumConnections n - 1\<rparr>"
    from above have lt: "minConnections n < currentNumConnections n" by simp
    note dec = word_dec_above [OF lt]
    have "set (available n1) \<subseteq> set (available n)"
      using set_swap_remove [OF i] by (simp add: n1_def)
    with "1.prems" have all1:
      "\<forall>x\<in>set (available n1). \<exists>c. x = Some c \<and> idleTimeout n1 \<le> Time_Sub now (lastUsed c)"
      by (auto simp: n1_def)
    from "1.IH"(1) [OF i above at stale] all1
    obtain n' ks where r: "expire_loop now i n1 (w\<lparr>closed := closed w @ [c]\<rparr>) =
          Return () n' (w\<lparr>closed := closed w @ [c],
                          closed := closed (w\<lparr>closed := closed w @ [c]\<rparr>) @ ks\<rparr>)"
      and k: "length ks = min (length (available n1) - i)
                (unat (currentNumConnections n1) - unat (minConnections n1))"
      unfolding n1_def by blast
    have e: "expire_loop now i n w = Return () n' (w\<lparr>closed := closed w @ (c # ks)\<rparr>)"
      using i above at stale r by (subst expire_loop.simps) (simp add: n1_def)
    have "unat (minConnections n) \<le> unat (currentNumConnections n - 1)"
      using dec(2) by (simp add: word_le_nat_alt)
    with k i dec(1) have "length (c # ks) = min (length (available n) - i)
        (unat (currentNumConnections n) - unat (minConnections n))"
      by (simp add: n1_def)
    with e show ?thesis by blast
  qed
qed

text \<open>
  Whatever the queue holds (even a \<^verbatim>\<open>nil\<close> entry, on which the sweep panics), a sweep that
  starts with the count at or above the minimum never leaves it below the minimum.
\<close>

lemma expire_loop_never_below:
  assumes "minConnections n \<le> currentNumConnections n"
  shows "minConnections (outcome_node (expire_loop now i n w)) = minConnections n \<and>
         minConnections n \<le> currentNumConnections (outcome_node (expire_loop now i n w))"
  using assms
proof (induction now i n w rule: expire_loop.induct)
  case (1 now i n w)
  show ?case
  proof (cases "i < length (available n) \<and> \<not> currentNumConnections n \<le> minConnections n")
    case False
    then have "expire_loop now i n w = Return () n w"
      by (subst expire_loop.simps) auto
    with "1.prems" show ?thesis by simp
  next
    case True
    then have i: "i < length (available n)"
      and above: "\<not> currentNumConnections n \<le> minConnections n" by simp_all
    from above have lt: "minConnections n < currentNumConnections n" by simp
    show ?thesis
    proof (cases "available n ! i")
      case None
      with i above have "expire_loop now i n w = Panic ''nil pointer dereference'' n w"
        by (subst expire_loop.simps) simp
      with "1.prems" show ?thesis by simp
    next
      case (Some c)
      show ?thesis
      proof (cases "idleTimeout n \<le> Time_Sub now (lastUsed c)")
        case True
        from "1.IH"(1) [OF i above Some True] word_dec_above(2) [OF lt]
        show ?thesis
          using i above Some True by (subst (1 2) expire_loop.simps) simp
      next
        case False
        from "1.IH"(2) [OF i above Some False "1.prems"]
        show ?thesis
          using i above Some False by (subst (1 2) expire_loop.simps) simp
      qed
    qed
  qed
qed

lemma expire_sweep_never_below:
  assumes "minConnections n \<le> currentNumConnections n"
  shows "minConnections n \<le> currentNumConnections (outcome_node (expire_sweep now n w))"
proof (cases "connMtx n")
  case True
  with assms show ?thesis by (simp add: expire_sweep_def)
next
  case False
  have "minConnections (n\<lparr>connMtx := True\<rparr>) \<le> currentNumConnections (n\<lparr>connMtx := True\<rparr>)"
    using assms by simp
  from expire_loop_never_below [OF this, of now 0 w] False show ?thesis
    by (cases "expire_loop now 0 (n\<lparr>connMtx := True\<rparr>) w") (simp_all add: expire_sweep_def)
qed

text \<open>
  C7. A sweep at the instant \<open>now\<close>, on a queue without \<^verbatim>\<open>nil\<close> entries and with \<open>connMtx\<close>
  free, returns; it changes only the queue and the live count and closes the connections
  \<open>ks\<close>. If the count was at or above the minimum it still is; if the count was not strictly
  above the minimum, nothing is removed. Every connection closed was in the queue with its
  time since last use at or beyond the idle timeout, and took one slot off the queue and one
  off the count. When every idle connection is stale, the sweep removes connections until the
  queue is empty or the count has come down to the minimum, and no further.
\<close>

theorem expire_sweep_keeps_minimum:
  assumes "\<not> connMtx n" and "None \<notin> set (available n)"
  shows "\<exists>n' ks.
           expire_sweep now n w = Return () n' (w\<lparr>closed := closed w @ ks\<rparr>) \<and>
           n' = n\<lparr>available := available n', currentNumConnections := currentNumConnections n'\<rparr> \<and>
           (minConnections n \<le> currentNumConnections n \<longrightarrow>
              minConnections n \<le> currentNumConnections n') \<and>
           (currentNumConnections n \<le> minConnections n \<longrightarrow> n' = n \<and> ks = []) \<and>
           unat (currentNumConnections n) = unat (currentNumConnections n') + length ks \<and>
           length (available n) = length (available n') + length ks \<and>
           (\<forall>c\<in>set ks. Some c \<in> set (available n) \<and>
                        idleTimeout n \<le> Time_Sub now (lastUsed c)) \<and>
           ((\<forall>x\<in>set (available n). \<exists>c. x = Some c \<and> idleTimeout n \<le> Time_Sub now (lastUsed c)) \<longrightarrow>
              length ks = min (length (available n))
                            (unat (currentNumConnections n) - unat (minConnections n)))"
proof -
  let ?m = "n\<lparr>connMtx := True\<rparr>"
  have nn: "None \<notin> set (available ?m)" using assms(2) by simp
  from expire_loop_spec [OF nn, of now 0 w]
  obtain n1 ks where r: "expire_loop now 0 ?m w = Return () n1 (w\<lparr>closed := closed w @ ks\<rparr>)"
    and post: "expire_post now ?m n1 ks" by blast
  let ?n' = "n1\<lparr>connMtx := False\<rparr>"
  have sweep: "expire_sweep now n w = Return () ?n' (w\<lparr>closed := closed w @ ks\<rparr>)"
    using assms(1) r by (simp add: expire_sweep_def)
  from post have p:
    "n1 = ?m\<lparr>available := available n1, currentNumConnections := currentNumConnections n1\<rparr>"
    "minConnections n \<le> currentNumConnections n \<longrightarrow> minConnections n \<le> currentNumConnections n1"
    "currentNumConnections n \<le> minConnections n \<longrightarrow> n1 = ?m \<and> ks = []"
    "unat (currentNumConnections n) = unat (currentNumConnections n1) + length ks"
    "length (available n) = length (available n1) + length ks"
    "\<forall>c\<in>set ks. Some c \<in> set (available n) \<and> idleTimeout n \<le> Time_Sub now (lastUsed c)"
    by (simp_all add: expire_post_def)
  have same: "?m\<lparr>connMtx := False\<rparr> = n" using assms(1) by simp
  have a: "?n' = n\<lparr>available := available ?n',
                    currentNumConnections := currentNumConnections ?n'\<rparr>"
    by (subst p(1)) (simp add: assms(1))
  have b: "currentNumConnections n \<le> minConnections n \<longrightarrow> ?n' = n \<and> ks = []"
    using p(3) same by auto
  have c: "(\<forall>x\<in>set (available n). \<exists>c. x = Some c \<and> idleTimeout n \<le> Time_Sub now (lastUsed c)) \<longrightarrow>
           length ks = min (length (available n))
                         (unat (currentNumConnections n) - unat (minConnections n))"
  proof
    assume "\<forall>x\<in>set (available n). \<exists>c. x = Some c \<and> idleTimeout n \<le> Time_Sub now (lastUsed c)"
    then have "\<forall>x\<in>set (available ?m). \<exists>c. x = Some c \<and>
                 idleTimeout ?m \<le> Time_Sub now (lastUsed c)" by simp
    from expire_loop_all_stale [OF this, of 0 w]
    obtain n2 ks2 where r2: "expire_loop now 0 ?m w = Return () n2 (w\<lparr>closed := closed w @ ks2\<rparr>)"
      and k2: "length ks2 = min (length (available n))
                 (unat (currentNumConnections n) - unat (minConnections n))"
      by auto
    from r r2 have "w\<lparr>closed := closed w @ ks\<rparr> = w\<lparr>closed := closed w @ ks2\<rparr>" by simp
    then have "closed (w\<lparr>closed := closed w @ ks\<rparr>) = closed (w\<lparr>closed := closed w @ ks2\<rparr>)"
      by (rule arg_cong)
    then have "ks = ks2" by simp
    with k2 show "length ks = min (length (available n))
                        (unat (currentNumConnections n) - unat (minConnections n))"
      by simp
  qed
  from sweep a p(2) b p(4) p(5) p(6) c show ?thesis
    by (intro exI [of _ ?n'] exI [of _ ks]) simp
qed

theorem expire_sweep_keeps_minimum_witness:
  "\<not> connMtx five_idle \<and> None \<notin> set (available five_idle) \<and>
   expire_sweep 10000 five_idle world_started =
     Return ()
       (node_in NODE_RUNNING [Some (conn 4 0), Some (conn 2 0), Some (conn 3 9000)] 3)
       (world_started\<lparr>closed := [conn 1 0, conn 5 0]\<rparr>) \<and>
   minConnections five_idle = 3"
proof -
  have free: "\<not> connMtx five_idle" and nn: "None \<notin> set (available five_idle)"
    by (simp_all add: five_idle_def node_in_def node_created_def)
  have run: "expire_sweep 10000 five_idle world_started =
     Return ()
       (node_in NODE_RUNNING [Some (conn 4 0), Some (conn 2 0), Some (conn 3 9000)] 3)
       (world_started\<lparr>closed := [conn 1 0, conn 5 0]\<rparr>)"
    by code_simp
  have m: "minConnections five_idle = 3"
    by (simp add: five_idle_def node_in_def node_created_def)
  from expire_sweep_keeps_minimum [OF free nn, of 10000 world_started] free nn run m
  show ?thesis by blast
qed

section \<open>The probe command of the health check\<close>

lemma createNewConnection_failed:
  assumes "\<forall>c. d \<noteq> ConnOk c"
  shows "\<exists>x e. createNewConnection hc d n w =
           Return (x, Some e) n (w\<lparr>probes := probes w @ [hc]\<rparr>)"
  using assms by (cases d) (simp_all add: createNewConnection_def)

lemma healthCheck_loop_retries:
  assumes "\<not> connMtx n" and "\<not> stateMtx_writer n" and "stateMtx_readers n = 0"
    and "state_byte (state n) < 4"
    and "\<forall>i. k \<le> i \<and> i < k + j \<longrightarrow> (\<forall>c. dials i \<noteq> ConnOk c)" and "dials (k + j) = ConnOk c"
  shows "healthCheck_loop dials k hc n w =
           Some (Return ()
             (n\<lparr>available := available n @ [Some (c\<lparr>inFlight := False\<rparr>)],
                currentNumConnections := currentNumConnections n + 1,
                state := NODE_RUNNING\<rparr>)
             (w\<lparr>probes := probes w @ replicate (Suc j) (Some hc)\<rparr>))"
  using assms(5,6)
proof (induction j arbitrary: k w)
  case 0
  then have "dials k = ConnOk c" by simp
  with assms(1-4) show ?case
    by (subst healthCheck_loop.simps)
      (simp add: createNewConnection_def returnConnectionToPool_def setState_def)
next
  case (Suc j)
  then have "\<forall>c. dials k \<noteq> ConnOk c" by simp
  from createNewConnection_failed [OF this, of "Some hc" n w]
  obtain x e where cr: "createNewConnection (Some hc) (dials k) n w =
      Return (x, Some e) n (w\<lparr>probes := probes w @ [Some hc]\<rparr>)" by blast
  have "\<forall>i. k + 1 \<le> i \<and> i < (k + 1) + j \<longrightarrow> (\<forall>c. dials i \<noteq> ConnOk c)"
    and "dials ((k + 1) + j) = ConnOk c"
    using Suc.prems by simp_all
  from Suc.IH [OF this, of "w\<lparr>probes := probes w @ [Some hc]\<rparr>"]
  have "healthCheck_loop dials (k + 1) hc n (w\<lparr>probes := probes w @ [Some hc]\<rparr>) =
          Some (Return ()
             (n\<lparr>available := available n @ [Some (c\<lparr>inFlight := False\<rparr>)],
                currentNumConnections := currentNumConnections n + 1,
                state := NODE_RUNNING\<rparr>)
             (w\<lparr>probes := probes w @ replicate (Suc (Suc j)) (Some hc)\<rparr>))"
    by (simp add: replicate_append_same)
  with cr show ?case
    by (subst healthCheck_loop.simps) (cases x; simp)
qed

lemma healthCheck_loop_Some:
  assumes "healthCheck_loop dials k hc n w = Some y"
  shows "\<exists>j c. dials j = ConnOk c"
proof (rule healthCheck_loop.raw_induct
    [where P = "\<lambda>dials k hc n w y. \<exists>j c. dials j = ConnOk c", OF _ assms])
  fix f :: "(nat \<Rightarrow> dial) \<Rightarrow> nat \<Rightarrow> command \<Rightarrow> Node \<Rightarrow> world \<Rightarrow> unit outcome option"
    and dials k hc n w y
  assume IH: "\<And>dials k hc n w y. f dials k hc n w = Some y \<Longrightarrow> \<exists>j c. dials j = ConnOk c"
    and body: "(case createNewConnection (Some hc) (dials k) n w of
        Return (None, err) n1 w1 \<Rightarrow> f dials (k + 1) hc n1 w1
      | Return (Some cn, None) n1 w1 \<Rightarrow>
          (case returnConnectionToPool cn True n1 w1 of
             Return u n2 w2 \<Rightarrow> Some (setState NODE_RUNNING n2 w2)
           | Panic m n2 w2 \<Rightarrow> Some (Panic m n2 w2)
           | Blocked n2 w2 \<Rightarrow> Some (Blocked n2 w2))
      | Return (Some cn, Some err) n1 w1 \<Rightarrow> f dials (k + 1) hc n1 w1
      | Panic m n1 w1 \<Rightarrow> Some (Panic m n1 w1)
      | Blocked n1 w1 \<Rightarrow> Some (Blocked n1 w1)) = Some y"
  show "\<exists>j c. dials j = ConnOk c"
  proof (cases "\<exists>c. dials k = ConnOk c")
    case True
    then show ?thesis by blast
  next
    case False
    then have "\<forall>c. dials k \<noteq> ConnOk c" by simp
    from createNewConnection_failed [OF this, of "Some hc" n w]
    obtain x e where "createNewConnection (Some hc) (dials k) n w =
      Return (x, Some e) n (w\<lparr>probes := probes w @ [Some hc]\<rparr>)" by blast
    with body have "f dials (k + 1) hc n (w\<lparr>probes := probes w @ [Some hc]\<rparr>) = Some y"
      by (cases x) simp_all
    from IH [OF this] show ?thesis .
  qed
qed

text \<open>
  Against an endpoint that never accepts a connection the health check never returns (unless
  it cannot even take the state lock).
\<close>

lemma healthCheck_never_returns:
  assumes "\<forall>j c. dials j \<noteq> ConnOk c"
  shows "healthCheck dials n w = None \<or> (\<exists>n' w'. healthCheck dials n w = Some (Blocked n' w'))"
proof (cases "stateMtx_writer n \<or> 0 < stateMtx_readers n")
  case True
  then show ?thesis by (auto simp: healthCheck_def setState_def)
next
  case False
  have "healthCheck_loop dials k hc n' w' = None" for k hc n' w'
    using healthCheck_loop_Some [of dials k hc n' w'] assms
    by (cases "healthCheck_loop dials k hc n' w'") auto
  with False show ?thesis
    by (simp add: healthCheck_def setState_def split: prod.splits)
qed

text \<open>
  What a health check does when, with the locks free, the first successful connect is at
  attempt \<open>j\<close> (from 0): \<^verbatim>\<open>getHealthCheckCommand\<close> is called once, before the loop, and the one
  command it produces is handed to each of the \<open>j + 1\<close> creation attempts, hence to each of
  the \<open>j + 1\<close> connections that \<^verbatim>\<open>newConnection\<close> builds.
\<close>

lemma healthCheck_probe_shared:
  assumes "\<not> connMtx n" and "\<not> stateMtx_writer n" and "stateMtx_readers n = 0"
    and "\<forall>i<j. \<forall>c. dials i \<noteq> ConnOk c" and "dials j = ConnOk c"
    and "hc = (case healthCheckBuilder n of Some b \<Rightarrow> BuiltCommand (allocs w)
                                        | None \<Rightarrow> PingCommand (allocs w))"
  shows "healthCheck dials n w =
           Some (Return ()
             (n\<lparr>available := available n @ [Some (c\<lparr>inFlight := False\<rparr>)],
                currentNumConnections := currentNumConnections n + 1,
                state := NODE_RUNNING\<rparr>)
             (w\<lparr>allocs := allocs w + 1,
                probes := probes w @ replicate (Suc j) (Some hc)\<rparr>))"
proof -
  let ?n = "n\<lparr>state := NODE_HEALTH_CHECKING\<rparr>"
  let ?w = "w\<lparr>allocs := allocs w + 1\<rparr>"
  have pre: "\<not> connMtx ?n" "\<not> stateMtx_writer ?n" "stateMtx_readers ?n = 0"
    "state_byte (state ?n) < 4"
    using assms(1-3) by simp_all
  have d: "\<forall>i. 0 \<le> i \<and> i < 0 + j \<longrightarrow> (\<forall>c. dials i \<noteq> ConnOk c)" "dials (0 + j) = ConnOk c"
    using assms(4,5) by simp_all
  have g: "getHealthCheckCommand ?n w = (hc, ?w)"
    using assms(6) by (simp add: getHealthCheckCommand_def split: option.splits)
  from healthCheck_loop_retries [OF pre d, of hc ?w] g assms(2,3) show ?thesis
    by (simp add: healthCheck_def setState_def)
qed

text \<open>
  C8. The claim: every creation attempt of the retry loop uses a freshly produced probe
  command, the factory (or the default constructor) being invoked once per attempt, so that
  no two attempts share an instance; the comment in \<^verbatim>\<open>getHealthCheckCommand\<close> asks for the same,
  a unique command as part of each connection. The code: against an endpoint that refuses two
  connects and accepts the third, \<^verbatim>\<open>healthCheck\<close> produces one command and hands it to all three
  attempts, with the default constructor (first run) as with a configured factory (second
  run); neither run gives each attempt a command of its own.
\<close>

theorem healthCheck_shares_probe:
  "healthCheck third_time_lucky (node_in NODE_RUNNING [] 0) world_started =
     Some (Return ()
       (node_in NODE_RUNNING [Some ((conn 8 0)\<lparr>inFlight := False\<rparr>)] 1)
       (world_started\<lparr>probes := [Some (PingCommand 0), Some (PingCommand 0), Some (PingCommand 0)],
                       allocs := 1\<rparr>)) \<and>
   \<not> fresh_probe_per_attempt world_started
       (world_started\<lparr>probes := [Some (PingCommand 0), Some (PingCommand 0), Some (PingCommand 0)],
                       allocs := 1\<rparr>) \<and>
   healthCheck third_time_lucky
       ((node_in NODE_RUNNING [] 0)\<lparr>healthCheckBuilder := Some (CommandBuilder 1)\<rparr>) world_started =
     Some (Return ()
       ((node_in NODE_RUNNING [Some ((conn 8 0)\<lparr>inFlight := False\<rparr>)] 1)
          \<lparr>healthCheckBuilder := Some (CommandBuilder 1)\<rparr>)
       (world_started\<lparr>probes := [Some (BuiltCommand 0), Some (BuiltCommand 0),
                                   Some (BuiltCommand 0)],
                       allocs := 1\<rparr>)) \<and>
   \<not> fresh_probe_per_attempt world_started
       (world_started\<lparr>probes := [Some (BuiltCommand 0), Some (BuiltCommand 0),
                                   Some (BuiltCommand 0)],
                       allocs := 1\<rparr>)"
proof -
  let ?n = "node_in NODE_RUNNING [] 0"
  let ?b = "?n\<lparr>healthCheckBuilder := Some (CommandBuilder 1)\<rparr>"
  have pre: "\<not> connMtx ?n" "\<not> stateMtx_writer ?n" "stateMtx_readers ?n = 0"
    and preb: "\<not> connMtx ?b" "\<not> stateMtx_writer ?b" "stateMtx_readers ?b = 0"
    by (simp_all add: node_in_def node_created_def)
  have fails: "\<forall>i<2. \<forall>c. third_time_lucky i \<noteq> ConnOk c"
    and ok: "third_time_lucky 2 = ConnOk (conn 8 0)"
    by (simp_all add: third_time_lucky_def)
  have ping: "PingCommand 0 = (case healthCheckBuilder ?n of
               Some b \<Rightarrow> BuiltCommand (allocs world_started)
             | None \<Rightarrow> PingCommand (allocs world_started))"
    and built: "BuiltCommand 0 = (case healthCheckBuilder ?b of
               Some b \<Rightarrow> BuiltCommand (allocs world_started)
             | None \<Rightarrow> PingCommand (allocs world_started))"
    by (simp_all add: node_in_def node_created_def world_started_def world0_def)
  have run1: "healthCheck third_time_lucky ?n world_started =
     Some (Return ()
       (node_in NODE_RUNNING [Some ((conn 8 0)\<lparr>inFlight := False\<rparr>)] 1)
       (world_started\<lparr>probes := [Some (PingCommand 0), Some (PingCommand 0), Some (PingCommand 0)],
                       allocs := 1\<rparr>))"
    using healthCheck_probe_shared [OF pre fails ok ping]
    by (simp add: node_in_def node_created_def world_started_def world0_def numeral_3_eq_3)
  have run2: "healthCheck third_time_lucky ?b world_started =
     Some (Return ()
       ((node_in NODE_RUNNING [Some ((conn 8 0)\<lparr>inFlight := False\<rparr>)] 1)
          \<lparr>healthCheckBuilder := Some (CommandBuilder 1)\<rparr>)
       (world_started\<lparr>probes := [Some (BuiltCommand 0), Some (BuiltCommand 0),
                                   Some (BuiltCommand 0)],
                       allocs := 1\<rparr>))"
    using healthCheck_probe_shared [OF preb fails ok built]
    by (simp add: node_in_def node_created_def world_started_def world0_def numeral_3_eq_3)
  have shared: "\<not> fresh_probe_per_attempt world_started
       (world_started\<lparr>probes := [Some (PingCommand 0), Some (PingCommand 0), Some (PingCommand 0)],
                       allocs := 1\<rparr>)"
    "\<not> fresh_probe_per_attempt world_started
       (world_started\<lparr>probes := [Some (BuiltCommand 0), Some (BuiltCommand 0),
                                   Some (BuiltCommand 0)],
                       allocs := 1\<rparr>)"
    by (simp_all add: fresh_probe_per_attempt_def world_started_def world0_def)
  from run1 run2 shared show ?thesis by simp
qed

section \<open>The live count, the idle queue and the connections checked out\<close>

lemma step_Acquire:
  assumes "pool_step Acquire s = Some s'" and "pool_inv16 s"
  shows "pool_inv16 s' \<and> pool_size s' \<le> Suc (pool_size s)"
  using assms
  by (cases s)
    (auto simp: getAvailableConnection_def idle_length_def
      split: if_splits list.splits option.splits)

lemma step_Release:
  assumes "pool_step (Release c) s = Some s'" and "pool_inv16 s"
  shows "pool_inv16 s' \<and> pool_size s' \<le> Suc (pool_size s)"
proof -
  obtain n w out where s: "s = (n, w, out)" by (cases s)
  from assms(1) s have mem: "cid c \<in> set out" by (auto split: if_splits)
  then have len: "length out = Suc (length (remove1 (cid c) out))"
    by (simp add: length_remove1) (metis Suc_pred length_pos_if_in_set)
  show ?thesis
  proof (cases "state_byte (state n) < 4")
    case True
    with assms s mem len show ?thesis
      by (auto simp: returnConnectionToPool_def idle_length_def split: if_splits)
  next
    case False
    with assms s mem len show ?thesis
      by (auto simp: returnConnectionToPool_def idle_length_def split: if_splits)
  qed
qed

lemma step_Create:
  assumes "pool_step (Create hc d) s = Some s'" and "pool_inv16 s"
  shows "pool_inv16 s' \<and> pool_size s' \<le> Suc (pool_size s)"
  using assms
  by (cases s; cases d)
    (auto simp: createNewConnection_def idle_length_def Let_def split: if_splits option.splits)

lemma step_SetState:
  assumes "pool_step (SetState st) s = Some s'" and "pool_inv16 s"
  shows "pool_inv16 s' \<and> pool_size s' \<le> Suc (pool_size s)"
  using assms
  by (cases s) (auto simp: setState_def idle_length_def split: if_splits)


lemma filter_swap_remove:
  assumes i: "i < length xs" and p: "P (xs ! i)"
  shows "length (filter P xs) =
         Suc (length (filter P (take (length xs - 1) (xs[i := xs ! (length xs - 1)]))))"
proof -
  define l where "l = length xs - 1"
  define ys where "ys = take l xs"
  define v where "v = xs ! l"
  from i have xs: "xs = ys @ [v]"
    unfolding ys_def v_def l_def
    by (metis append_butlast_last_id butlast_conv_take last_conv_nth list.size(3) not_less0)
  have fx: "length (filter P xs) = length (filter P ys) + (if P v then 1 else 0)"
    by (subst xs) simp
  have "length (filter P xs) = Suc (length (filter P (take l (xs[i := v]))))"
  proof (cases "i = l")
    case True
    then have "take l (xs[i := v]) = ys" by (simp add: ys_def)
    moreover from True p have "P v" by (simp add: v_def)
    ultimately show ?thesis using fx by simp
  next
    case False
    with i have il: "i < length ys" by (simp add: ys_def l_def)
    have t: "take l (xs[i := v]) = ys[i := v]" by (simp add: ys_def take_update_swap)
    from il have yi: "ys ! i = xs ! i" by (simp add: ys_def)
    have 1: "ys = take i ys @ ys ! i # drop (Suc i) ys"
      using il by (simp add: id_take_nth_drop)
    have 2: "ys[i := v] = take i ys @ v # drop (Suc i) ys"
      using il by (simp add: upd_conv_take_nth_drop)
    have "length (filter P ys) =
          Suc (length (filter P (take i ys)) + length (filter P (drop (Suc i) ys)))"
      by (subst 1) (simp add: yi p)
    moreover have "length (filter P (ys[i := v])) =
          length (filter P (take i ys)) + (if P v then 1 else 0)
            + length (filter P (drop (Suc i) ys))"
      by (subst 2) simp
    ultimately show ?thesis using t fx by simp
  qed
  then show ?thesis by (simp add: l_def v_def)
qed

lemma expire_loop_idle:
  assumes "expire_loop now i n w = Return u n' w'"
  shows "\<exists>k. unat (currentNumConnections n) = unat (currentNumConnections n') + k \<and>
             idle_length n = idle_length n' + k"
  using assms
proof (induction now i n w rule: expire_loop.induct)
  case (1 now i n w)
  show ?case
  proof (cases "i < length (available n) \<and> \<not> currentNumConnections n \<le> minConnections n")
    case False
    then have "expire_loop now i n w = Return () n w"
      by (subst expire_loop.simps) auto
    with "1.prems" have "n' = n" by simp
    then show ?thesis by simp
  next
    case True
    then have i: "i < length (available n)"
      and above: "\<not> currentNumConnections n \<le> minConnections n" by simp_all
    from above have lt: "minConnections n < currentNumConnections n" by simp
    show ?thesis
    proof (cases "available n ! i")
      case None
      with i above have "expire_loop now i n w = Panic ''nil pointer dereference'' n w"
        by (subst expire_loop.simps) simp
      with "1.prems" show ?thesis by simp
    next
      case (Some c)
      show ?thesis
      proof (cases "idleTimeout n \<le> Time_Sub now (lastUsed c)")
        case True
        define n1 where "n1 = n\<lparr>available := take (length (available n) - 1)
                        ((available n)[i := available n ! (length (available n) - 1)]),
                    currentNumConnections := currentNumConnections n - 1\<rparr>"
        have "expire_loop now i n1 (w\<lparr>closed := closed w @ [c]\<rparr>) = Return u n' w'"
          using "1.prems" i above Some True
          by (subst (asm) expire_loop.simps) (simp add: n1_def)
        from "1.IH"(1) [OF i above Some True this [unfolded n1_def]]
        obtain k where k: "unat (currentNumConnections n1) = unat (currentNumConnections n') + k"
          "idle_length n1 = idle_length n' + k"
          unfolding n1_def by blast
        have "idle_length n = Suc (idle_length n1)"
          using filter_swap_remove [OF i, of "\<lambda>x. x \<noteq> None"] Some
          by (simp add: idle_length_def n1_def)
        moreover have "unat (currentNumConnections n) = Suc (unat (currentNumConnections n1))"
          using word_dec_above(1) [OF lt] by (simp add: n1_def)
        ultimately show ?thesis using k by (intro exI [of _ "Suc k"]) simp
      next
        case False
        have "expire_loop now (i + 1) n w = Return u n' w'"
          using "1.prems" i above Some False
          by (subst (asm) expire_loop.simps) simp
        from "1.IH"(2) [OF i above Some False this] show ?thesis .
      qed
    qed
  qed
qed


lemma step_Expire:
  assumes "pool_step (Expire now) s = Some s'" and "pool_inv16 s"
  shows "pool_inv16 s' \<and> pool_size s' \<le> Suc (pool_size s)"
proof -
  obtain n w out where s: "s = (n, w, out)" by (cases s)
  from assms(1) s obtain u n1 w1 where
    loop: "expire_loop now 0 (n\<lparr>connMtx := True\<rparr>) w = Return u n1 w1"
    and s': "s' = (n1\<lparr>connMtx := False\<rparr>, w1, out)"
    by (auto simp: expire_sweep_def split: if_splits outcome.splits)
  from expire_loop_idle [OF loop] obtain k where
    k: "unat (currentNumConnections n) = unat (currentNumConnections n1) + k"
      "idle_length n = idle_length n1 + k"
    by (auto simp: idle_length_def)
  have "currentNumConnections n = of_nat (unat (currentNumConnections n1) + k)"
    using k(1) by (metis of_nat_unat ucast_id)
  with assms(2) s k(2) have
    "(of_nat (unat (currentNumConnections n1)) :: uint16) + of_nat k =
     of_nat (idle_length n1 + length out) + of_nat k"
    by simp
  then have "currentNumConnections n1 = of_nat (idle_length n1 + length out)"
    by simp
  with s s' k(2) show ?thesis by (simp add: idle_length_def)
qed

lemma shutdown_loop_Return:
  assumes "shutdown_loop close_err q i err n w = Return e n' w'"
    and "i + length q \<le> length (available n)"
  shows "None \<notin> set q \<and>
         available n' = take i (available n) @ replicate (length q) None
                          @ drop (i + length q) (available n) \<and>
         currentNumConnections n' = currentNumConnections n - of_nat (length q)"
  using assms
proof (induction q arbitrary: i err n w)
  case Nil
  then show ?case by simp
next
  case (Cons a q)
  then obtain c where a: "a = Some c" by (cases a) auto
  let ?n1 = "n\<lparr>available := (available n)[i := None],
               currentNumConnections := currentNumConnections n - 1\<rparr>"
  from Cons.prems(2) have i: "i < length (available n)" by simp
  have r: "shutdown_loop close_err q (i + 1) (close_err c) ?n1 (w\<lparr>closed := closed w @ [c]\<rparr>) =
           Return e n' w'"
    using Cons.prems(1) a by simp
  have b: "(i + 1) + length q \<le> length (available ?n1)"
    using Cons.prems(2) by simp
  from Cons.IH [OF r b] have ih: "None \<notin> set q"
    "available n' = take (i + 1) (available ?n1) @ replicate (length q) None
                      @ drop ((i + 1) + length q) (available ?n1)"
    "currentNumConnections n' = currentNumConnections ?n1 - of_nat (length q)"
    by simp_all
  have t: "take (i + 1) (available ?n1) = take i (available n) @ [None]"
    using i by (simp add: take_Suc_conv_app_nth)
  have d: "drop ((i + 1) + length q) (available ?n1) = drop (i + length (a # q)) (available n)"
    by simp
  from ih t d a show ?case by (simp add: replicate_app_Cons_same)
qed

lemma step_Drain:
  assumes "pool_step (Drain close_err) s = Some s'" and "pool_inv16 s"
  shows "pool_inv16 s' \<and> pool_size s' \<le> Suc (pool_size s)"
proof -
  obtain n w out where s: "s = (n, w, out)" by (cases s)
  from assms(1) s obtain e n1 w1 n' w' where
    loop: "shutdown_loop close_err (available n) 0 None (n\<lparr>connMtx := True\<rparr>) w = Return e n1 w1"
    and s': "s' = (n', w', out)"
    and n': "available n' = available n1 \<or> available n' = []"
      "currentNumConnections n' = currentNumConnections n1"
    by (auto simp: shutdown_def setState_def split: if_splits outcome.splits option.splits)
  from shutdown_loop_Return [OF loop] have l: "None \<notin> set (available n)"
    "available n1 = replicate (length (available n)) None"
    "currentNumConnections n1 = currentNumConnections n - of_nat (length (available n))"
    by simp_all
  from l(1) have "\<forall>x\<in>set (available n). x \<noteq> None" by metis
  then have "filter (\<lambda>x. x \<noteq> None) (available n) = available n"
    by (rule filter_True)
  then have full: "idle_length n = length (available n)"
    by (simp only: idle_length_def)
  from n'(1) l(2) have empty: "idle_length n' = 0"
    by (auto simp: idle_length_def)
  from assms(2) s full l(3) n'(2) have "currentNumConnections n' = of_nat (length out)"
    by simp
  with s s' empty show ?thesis by simp
qed

lemma pool_step_inv16:
  assumes "pool_step op s = Some s'" and "pool_inv16 s"
  shows "pool_inv16 s' \<and> pool_size s' \<le> Suc (pool_size s)"
  using assms
  by (cases op)
    (simp_all only: step_Acquire step_Release step_Create step_Expire step_Drain step_SetState)


lemma NewNode_pool_empty:
  assumes "NewNode dflt resolve options = Inr n"
  shows "available n = [] \<and> currentNumConnections n = 0"
  using assms by (auto simp: NewNode_def Let_def split: sum.splits)

lemma reachable_inv16: "reachable s \<Longrightarrow> pool_inv16 s"
proof (induction rule: reachable.induct)
  case (start dflt resolve options n)
  from NewNode_pool_empty [OF this] show ?case by (simp add: idle_length_def)
next
  case (step s op s')
  from pool_step_inv16 [OF step.hyps(2) step.IH] show ?case by simp
qed

lemma pool_inv_iff:
  assumes "pool_inv16 s"
  shows "pool_inv s \<longleftrightarrow> pool_size s < 65536"
proof -
  obtain n w out where s: "s = (n, w, out)" by (cases s)
  from assms have c: "currentNumConnections n = of_nat (idle_length n + length out)"
    unfolding s by (simp only: pool_inv16.simps)
  have "unat (currentNumConnections n) = (idle_length n + length out) mod 65536"
    unfolding c by (simp add: unat_of_nat del: of_nat_add)
  with s show ?thesis by auto
qed

lemma pool_inv_inv16: "pool_inv s \<Longrightarrow> pool_inv16 s"
  by (cases s) (metis of_nat_unat pool_inv.simps pool_inv16.simps ucast_id)

lemma NewNode_fixture: "NewNode dflt_fixture (\<lambda>a. Inr a) None = Inr node_created"
  by (simp add: NewNode_def fill_defaults_def dflt_fixture_def node_created_def)

lemma create_after_creates:
  "pool_step (Create None (ConnOk (conn k 0))) (after_creates k) = Some (after_creates (Suc k))"
  by (simp add: after_creates_def createNewConnection_def node_created_def conn_def
      replicate_append_same)

lemma reachable_after_creates: "reachable (after_creates k)"
proof (induction k)
  case 0
  have "after_creates 0 = (node_created, world0, [])"
    by (simp add: after_creates_def node_created_def world0_def)
  with reachable.start [OF NewNode_fixture] show ?case by simp
next
  case (Suc k)
  from reachable.step [OF Suc create_after_creates] show ?case .
qed

text \<open>
  After 65536 successful creations the counter is back at 0, with 65536 connections checked
  out.
\<close>

lemma counter_wraps: "reachable (after_creates 65536) \<and> \<not> pool_inv (after_creates 65536)"
proof -
  have "\<not> pool_inv (after_creates 65536)"
    by (simp add: after_creates_def idle_length_def node_created_def)
  with reachable_after_creates show ?thesis by simp
qed

lemma reachable_one_idle: "reachable one_idle"
proof -
  have 0: "reachable (node_created, world0, [])"
    by (rule reachable.start [OF NewNode_fixture])
  have 1: "pool_step (Create None (ConnOk (conn 1 0))) (node_created, world0, []) =
             Some (node_created\<lparr>currentNumConnections := 1\<rparr>, world0\<lparr>probes := [None]\<rparr>, [1])"
    by (simp add: createNewConnection_def node_created_def world0_def conn_def)
  have 2: "pool_step (Release (conn 1 0))
             (node_created\<lparr>currentNumConnections := 1\<rparr>, world0\<lparr>probes := [None]\<rparr>, [1]) =
             Some one_idle"
    by (simp add: returnConnectionToPool_def node_created_def conn_def one_idle_def)
  from reachable.step [OF reachable.step [OF 0 1] 2] show ?thesis .
qed

lemma drain_one_idle:
  "pool_step (Drain (\<lambda>c. Some (CollabError 9))) one_idle = Some failed_drain"
  by (simp add: one_idle_def failed_drain_def shutdown_def setState_def node_created_def
      world0_def)

text \<open>
  C2, as stated, fails. After the drain of one idle connection whose close fails, the node is
  in ERROR with a live count of 0 and nothing checked out, and its queue has length 1: the
  slot of the closed connection, set to \<^verbatim>\<open>nil\<close>, is still there (\<^verbatim>\<open>shutdown\<close> clears the queue
  only when it goes to SHUTDOWN). The state before the drain satisfies the equality.
\<close>

theorem failed_drain_counterexample:
  "reachable one_idle \<and> pool_inv_len one_idle \<and>
   pool_step (Drain (\<lambda>c. Some (CollabError 9))) one_idle = Some failed_drain \<and>
   reachable failed_drain \<and> \<not> pool_inv_len failed_drain"
proof -
  have "pool_inv_len one_idle" and "\<not> pool_inv_len failed_drain"
    by (simp_all add: one_idle_def failed_drain_def)
  with reachable_one_idle drain_one_idle reachable.step [OF reachable_one_idle drain_one_idle]
  show ?thesis by simp
qed

text \<open>
  C2, amended. In every reachable state the live count equals the number of connections in
  the idle queue plus the number of connections checked out, in the arithmetic of the
  \<^verbatim>\<open>uint16\<close> counter (modulo 65536), and every operation (acquire, release, create, expire,
  drain, change of state) preserves this. The equality is exact precisely when fewer than
  65536 connections are idle or checked out, and every operation that starts with the exact
  equality and fewer than 65535 such connections ends with it. On a queue without \<^verbatim>\<open>nil\<close>
  slots the number of connections in the queue is its length.
\<close>

theorem pool_count_invariant:
  "(reachable s \<longrightarrow> pool_inv16 s) \<and>
   (pool_inv16 s \<and> pool_step op s = Some s' \<longrightarrow> pool_inv16 s') \<and>
   (pool_inv16 s \<longrightarrow> (pool_inv s \<longleftrightarrow> pool_size s < 65536)) \<and>
   (pool_inv s \<and> pool_step op s = Some s' \<and> pool_size s < 65535 \<longrightarrow> pool_inv s') \<and>
   (None \<notin> set (available (fst s)) \<longrightarrow> (pool_inv_len s \<longleftrightarrow> pool_inv s))"
proof -
  have "pool_inv s'" if "pool_inv s" "pool_step op s = Some s'" "pool_size s < 65535"
  proof -
    from pool_step_inv16 [OF that(2) pool_inv_inv16 [OF that(1)]]
    have "pool_inv16 s'" "pool_size s' \<le> Suc (pool_size s)" by simp_all
    with that(3) pool_inv_iff [of s'] show ?thesis by simp
  qed
  moreover have "pool_inv_len s \<longleftrightarrow> pool_inv s" if "None \<notin> set (available (fst s))"
  proof -
    from that have "\<forall>x\<in>set (available (fst s)). x \<noteq> None" by metis
    then have "filter (\<lambda>x. x \<noteq> None) (available (fst s)) = available (fst s)"
      by (rule filter_True)
    then show ?thesis by (cases s) (simp add: idle_length_def)
  qed
  ultimately show ?thesis
    using reachable_inv16 pool_step_inv16 pool_inv_iff by blast
qed

theorem pool_count_invariant_witness:
  "reachable one_idle \<and> pool_inv16 one_idle \<and> pool_inv one_idle \<and> pool_size one_idle < 65535 \<and>
   None \<notin> set (available (fst one_idle)) \<and> pool_inv_len one_idle \<and>
   pool_step Acquire one_idle =
     Some (node_created\<lparr>currentNumConnections := 1\<rparr>, world0\<lparr>probes := [None]\<rparr>, [1]) \<and>
   pool_inv (node_created\<lparr>currentNumConnections := 1\<rparr>, world0\<lparr>probes := [None]\<rparr>, [1])"
proof -
  let ?s' = "(node_created\<lparr>currentNumConnections := 1\<rparr>, world0\<lparr>probes := [None]\<rparr>, [1])"
  have a: "pool_step Acquire one_idle = Some ?s'"
    by (simp add: one_idle_def getAvailableConnection_def node_created_def conn_def)
  have i: "pool_inv one_idle" and z: "pool_size one_idle < 65535"
    and nn: "None \<notin> set (available (fst one_idle))"
    by (simp_all add: one_idle_def idle_length_def node_created_def)
  from pool_count_invariant [of one_idle Acquire ?s'] reachable_one_idle a i z nn
  show ?thesis by blast
qed

end
